theory Spec2Isabelle
  imports Complex_Main "HOL-Library.Word"
begin

section \<open>Values, errors and the process state\<close>

text \<open>
  A waveform is the sample sequence of a one-dimensional numpy array; a sample is the
  rational it denotes, and no arithmetic is done on samples here.
  Arrays are objects: a variable holds a reference, and the contents live in a heap that
  only grows (a slice or a transform result is a new array object; a slice is taken as
  a snapshot of the samples it covers).
\<close>

type_synonym sample = rat
type_synonym waveform = "sample list"
type_synonym ref = nat
type_synonym path = "string \<times> string"
type_synonym audio_file = "waveform \<times> int"

datatype error =
    ValueError
  | IndexError
  | OverflowError
  | FileNotFoundError
  | ParameterError
  | LibsndfileError

text \<open>
  The state a call can touch: the array heap, the process-wide random source of the
  \<^verbatim>\<open>random\<close> module (the sequence of its future 53-bit outputs and the number
  already consumed), and the file system (directory listings in \<^verbatim>\<open>os.listdir\<close> order,
  file contents by directory and entry name, and the log of the writes performed).
\<close>

record world =
  heap :: "ref \<Rightarrow> waveform"
  next_ref :: ref
  draws :: "nat \<Rightarrow> 53 word"
  pos :: nat
  directories :: "string \<rightharpoonup> string list"
  files :: "path \<rightharpoonup> audio_file"
  written :: "(path \<times> audio_file) list"

definition alloc :: "waveform \<Rightarrow> world \<Rightarrow> ref \<times> world" where
  "alloc v w =
     (next_ref w, w\<lparr>heap := (heap w)(next_ref w := v), next_ref := Suc (next_ref w)\<rparr>)"

fun alloc_all :: "waveform list \<Rightarrow> world \<Rightarrow> ref list \<times> world" where
  "alloc_all [] w = ([], w)"
| "alloc_all (v # vs) w =
     (case alloc v w of (r, w1) \<Rightarrow>
        (case alloc_all vs w1 of (rs, w2) \<Rightarrow> (r # rs, w2)))"

section \<open>Python built-ins used by the source\<close>

text \<open>
  A Python float is an IEEE 754 binary64 value: a finite double (the rational it denotes;
  the sign of zero is not kept), an infinity or a NaN.
\<close>

datatype pyfloat = Finite rat | PosInf | NegInf | NaN

text \<open>\<^verbatim>\<open>n.bit_length()\<close> of a natural number.\<close>

fun bit_length :: "nat \<Rightarrow> nat" where
  "bit_length n = (if n = 0 then 0 else Suc (bit_length (n div 2)))"

text \<open>
  Rounding of an exact result to a double, to nearest with ties to even: for \<open>x \<noteq> 0\<close>
  in the binade \<open>2 ^ E \<le> \<bar>x\<bar> < 2 ^ (E + 1)\<close> the doubles are spaced by \<open>2 ^ e\<close> with
  \<open>e = E - 52\<close>, and never finer than \<open>2 ^ - 1074\<close> (the subnormal range); a result of
  magnitude \<open>2 ^ 1024\<close> or more overflows to an infinity.
\<close>

definition floor_log2 :: "rat \<Rightarrow> int" where
  "floor_log2 x =
     (if 1 \<le> x then int (bit_length (nat \<lfloor>x\<rfloor>)) - 1
      else - int (bit_length (nat (\<lceil>1 / x\<rceil> - 1))))"

definition round_even :: "rat \<Rightarrow> int" where
  "round_even x =
     (if x - of_int \<lfloor>x\<rfloor> < 1 / 2 then \<lfloor>x\<rfloor>
      else if 1 / 2 < x - of_int \<lfloor>x\<rfloor> then \<lfloor>x\<rfloor> + 1
      else if even \<lfloor>x\<rfloor> then \<lfloor>x\<rfloor> else \<lfloor>x\<rfloor> + 1)"

definition scale2 :: "rat \<Rightarrow> int \<Rightarrow> rat" where
  "scale2 x e = (if 0 \<le> e then x * 2 ^ nat e else x / 2 ^ nat (- e))"

definition round_double :: "rat \<Rightarrow> pyfloat" where
  "round_double x =
     (if x = 0 then Finite 0
      else (let e = max (- 1074) (floor_log2 \<bar>x\<bar> - 52);
                y = scale2 (of_int (round_even (scale2 x (- e)))) e
            in if 2 ^ 1024 \<le> y then PosInf
               else if y \<le> - (2 ^ 1024) then NegInf
               else Finite y))"

text \<open>The product of two floats.\<close>

fun float_mul :: "pyfloat \<Rightarrow> pyfloat \<Rightarrow> pyfloat" where
  "float_mul NaN y = NaN"
| "float_mul x NaN = NaN"
| "float_mul (Finite x) (Finite y) = round_double (x * y)"
| "float_mul (Finite x) PosInf = (if x = 0 then NaN else if 0 < x then PosInf else NegInf)"
| "float_mul (Finite x) NegInf = (if x = 0 then NaN else if 0 < x then NegInf else PosInf)"
| "float_mul PosInf (Finite y) = (if y = 0 then NaN else if 0 < y then PosInf else NegInf)"
| "float_mul NegInf (Finite y) = (if y = 0 then NaN else if 0 < y then NegInf else PosInf)"
| "float_mul PosInf PosInf = PosInf"
| "float_mul PosInf NegInf = NegInf"
| "float_mul NegInf PosInf = NegInf"
| "float_mul NegInf NegInf = PosInf"

text \<open>
  The conversion of an \<^verbatim>\<open>int\<close> to a float rounds in the same way and raises
  OverflowError when the integer is too large; \<^verbatim>\<open>x * n\<close> for a float \<open>x\<close> and an
  \<^verbatim>\<open>int\<close> \<open>n\<close> converts \<open>n\<close> and multiplies.
\<close>

definition float_of_int :: "int \<Rightarrow> error + pyfloat" where
  "float_of_int n =
     (case round_double (of_int n) of
        Finite y \<Rightarrow> Inr (Finite y)
      | PosInf \<Rightarrow> Inl OverflowError
      | NegInf \<Rightarrow> Inl OverflowError
      | NaN \<Rightarrow> Inl OverflowError)"

definition float_times_int :: "pyfloat \<Rightarrow> int \<Rightarrow> error + pyfloat" where
  "float_times_int x n =
     (case float_of_int n of Inl e \<Rightarrow> Inl e | Inr y \<Rightarrow> Inr (float_mul x y))"

text \<open>
  \<^verbatim>\<open>int(x)\<close> on a float truncates towards zero; an infinity raises OverflowError and
  a NaN raises ValueError.
\<close>

fun py_int :: "pyfloat \<Rightarrow> error + int" where
  "py_int (Finite x) = Inr (if 0 \<le> x then \<lfloor>x\<rfloor> else \<lceil>x\<rceil>)"
| "py_int PosInf = Inl OverflowError"
| "py_int NegInf = Inl OverflowError"
| "py_int NaN = Inl ValueError"

text \<open>
  \<^verbatim>\<open>range(start, stop, step)\<close>: a zero step raises ValueError; otherwise the
  elements are \<open>start + k * step\<close> for \<open>k\<close> below the length CPython computes.
\<close>

definition range_len :: "int \<Rightarrow> int \<Rightarrow> int \<Rightarrow> nat" where
  "range_len start stop step =
     (if 0 < step then (if start < stop then nat ((stop - start - 1) div step + 1) else 0)
      else (if stop < start then nat ((start - stop - 1) div (- step) + 1) else 0))"

definition py_range :: "int \<Rightarrow> int \<Rightarrow> int \<Rightarrow> error + int list" where
  "py_range start stop step =
     (if step = 0 then Inl ValueError
      else Inr (map (\<lambda>k. start + int k * step) [0..<range_len start stop step]))"

text \<open>
  \<^verbatim>\<open>xs[a:b]\<close>: a negative bound counts from the end, and both bounds are clamped
  to the sequence.
\<close>

definition slice_bound :: "nat \<Rightarrow> int \<Rightarrow> nat" where
  "slice_bound n i = (if i < 0 then nat (max 0 (int n + i)) else min (nat i) n)"

definition py_slice :: "'a list \<Rightarrow> int \<Rightarrow> int \<Rightarrow> 'a list" where
  "py_slice xs a b =
     (let lo = slice_bound (length xs) a; hi = slice_bound (length xs) b
      in take (hi - lo) (drop lo xs))"

section \<open>The random module\<close>

text \<open>
  One output of the random source, read as \<^verbatim>\<open>random.random()\<close> reads it (a float
  in \<open>[0, 1)\<close> with 53 bits) and as an index below \<open>n\<close>. The library is free in how
  many bits it takes for an index; here every primitive call consumes one output, and
  the results depend on the source through these two readings only.
\<close>

definition unit_of :: "53 word \<Rightarrow> rat" where
  "unit_of m = of_nat (unat m) / 2 ^ 53"

definition index_of :: "nat \<Rightarrow> 53 word \<Rightarrow> nat" where
  "index_of n m = (unat m * n) div 2 ^ 53"

definition random_random :: "world \<Rightarrow> rat \<times> world" where
  "random_random w = (unit_of (draws w (pos w)), w\<lparr>pos := Suc (pos w)\<rparr>)"

text \<open>\<^verbatim>\<open>random.uniform(a, b)\<close> is \<^verbatim>\<open>a + (b - a) * random()\<close>.\<close>

definition random_uniform :: "rat \<Rightarrow> rat \<Rightarrow> world \<Rightarrow> rat \<times> world" where
  "random_uniform a b w = (case random_random w of (u, w') \<Rightarrow> (a + (b - a) * u, w'))"

definition randbelow :: "nat \<Rightarrow> world \<Rightarrow> nat \<times> world" where
  "randbelow n w = (index_of n (draws w (pos w)), w\<lparr>pos := Suc (pos w)\<rparr>)"

text \<open>
  \<^verbatim>\<open>random.choice(seq)\<close> raises IndexError on an empty sequence, and otherwise
  returns the element at an index drawn below \<^verbatim>\<open>len(seq)\<close>.
\<close>

definition random_choice :: "'a list \<Rightarrow> world \<Rightarrow> (error + 'a) \<times> world" where
  "random_choice seq w =
     (if seq = [] then (Inl IndexError, w)
      else (case randbelow (length seq) w of (i, w') \<Rightarrow> (Inr (seq ! i), w')))"

section \<open>The external collaborators\<close>

text \<open>
  The signal-processing primitives and the decoder of librosa are not part of the
  repository: they are parameters, functions of the samples that may fail and that leave
  their argument alone. A call allocates the array it returns.
\<close>

record librosa =
  effects_pitch_shift :: "waveform \<Rightarrow> int \<Rightarrow> rat \<Rightarrow> error + waveform"
  effects_time_stretch :: "waveform \<Rightarrow> rat \<Rightarrow> error + waveform"
  load :: "audio_file \<Rightarrow> int \<Rightarrow> error + waveform"

definition librosa_pitch_shift ::
  "librosa \<Rightarrow> ref \<Rightarrow> int \<Rightarrow> rat \<Rightarrow> world \<Rightarrow> (error + ref) \<times> world" where
  "librosa_pitch_shift lib y rate n_steps w =
     (case effects_pitch_shift lib (heap w y) rate n_steps of
        Inl e \<Rightarrow> (Inl e, w)
      | Inr v \<Rightarrow> (case alloc v w of (r, w') \<Rightarrow> (Inr r, w')))"

definition librosa_time_stretch ::
  "librosa \<Rightarrow> ref \<Rightarrow> rat \<Rightarrow> world \<Rightarrow> (error + ref) \<times> world" where
  "librosa_time_stretch lib y rate w =
     (case effects_time_stretch lib (heap w y) rate of
        Inl e \<Rightarrow> (Inl e, w)
      | Inr v \<Rightarrow> (case alloc v w of (r, w') \<Rightarrow> (Inr r, w')))"

text \<open>\<^verbatim>\<open>librosa.load(path, sr)\<close>: the file must exist; the decoded samples are a new array.\<close>

definition librosa_load ::
  "librosa \<Rightarrow> path \<Rightarrow> int \<Rightarrow> world \<Rightarrow> (error + ref) \<times> world" where
  "librosa_load lib p rate w =
     (case files w p of
        None \<Rightarrow> (Inl FileNotFoundError, w)
      | Some f \<Rightarrow>
          (case load lib f rate of
             Inl e \<Rightarrow> (Inl e, w)
           | Inr v \<Rightarrow> (case alloc v w of (r, w') \<Rightarrow> (Inr r, w'))))"

text \<open>
  \<^verbatim>\<open>np.concatenate(arrays)\<close> raises ValueError on an empty list ("need at least one
  array to concatenate") and otherwise returns a new array with the samples end to end.
\<close>

definition np_concatenate :: "ref list \<Rightarrow> world \<Rightarrow> (error + ref) \<times> world" where
  "np_concatenate arrays w =
     (if arrays = [] then (Inl ValueError, w)
      else (case alloc (concat (map (heap w) arrays)) w of (r, w') \<Rightarrow> (Inr r, w')))"

text \<open>\<^verbatim>\<open>os.listdir(d)\<close> and \<^verbatim>\<open>sf.write(path, y, sr)\<close>; a path is a directory and an entry name.\<close>

definition os_listdir :: "string \<Rightarrow> world \<Rightarrow> error + string list" where
  "os_listdir d w = (case directories w d of None \<Rightarrow> Inl FileNotFoundError | Some names \<Rightarrow> Inr names)"

definition sf_write :: "path \<Rightarrow> ref \<Rightarrow> int \<Rightarrow> world \<Rightarrow> (error + unit) \<times> world" where
  "sf_write p y rate w =
     (case directories w (fst p) of
        None \<Rightarrow> (Inl LibsndfileError, w)
      | Some names \<Rightarrow>
          (Inr (),
           w\<lparr>directories :=
                (directories w)(fst p \<mapsto> (if snd p \<in> set names then names else names @ [snd p])),
             files := (files w)(p \<mapsto> (heap w y, rate)),
             written := written w @ [(p, (heap w y, rate))]\<rparr>))"

text \<open>\<^verbatim>\<open>str.lower\<close> on the ASCII letters, and \<^verbatim>\<open>str.endswith\<close>.\<close>

definition lower_char :: "char \<Rightarrow> char" where
  "lower_char c =
     (if (65 :: nat) \<le> of_char c \<and> of_char c \<le> (90 :: nat)
      then char_of (of_char c + (32 :: nat)) else c)"

definition lower :: "string \<Rightarrow> string" where
  "lower s = map lower_char s"

definition endswith :: "string \<Rightarrow> string \<Rightarrow> bool" where
  "endswith s suffix =
     (length suffix \<le> length s \<and> drop (length s - length suffix) s = suffix)"

section \<open>StyleComposer\<close>

record StyleComposer =
  sr :: int

text \<open>
  \<^verbatim>\<open>segment_and_score(self, y, segment_length)\<close>: \<open>samples_per_seg\<close> is the
  truncation of the float product \<^verbatim>\<open>segment_length * self.sr\<close>; the windows are sliced
  at every offset of the range, then the windows whose length is not \<open>samples_per_seg\<close>
  are filtered out.
\<close>

definition segment_and_score ::
  "StyleComposer \<Rightarrow> ref \<Rightarrow> pyfloat \<Rightarrow> world \<Rightarrow> (error + ref list) \<times> world" where
  "segment_and_score self y segment_length w =
     (case float_times_int segment_length (StyleComposer.sr self) of
        Inl e \<Rightarrow> (Inl e, w)
      | Inr product \<Rightarrow>
          (case py_int product of
             Inl e \<Rightarrow> (Inl e, w)
           | Inr samples_per_seg \<Rightarrow>
               (case py_range 0 (int (length (heap w y))) samples_per_seg of
                  Inl e \<Rightarrow> (Inl e, w)
                | Inr offsets \<Rightarrow>
                    (case alloc_all
                            (map (\<lambda>i. py_slice (heap w y) i (i + samples_per_seg)) offsets) w of
                       (segments, w') \<Rightarrow>
                         (Inr (filter (\<lambda>seg. int (length (heap w' seg)) = samples_per_seg)
                                 segments),
                          w')))))"

text \<open>
  \<^verbatim>\<open>compose(self, segments, variation_strength, num_phrases)\<close>. The loop body runs once
  for each element of \<^verbatim>\<open>range(num_phrases)\<close>; the float literals 0.5, 0.95 and 1.05
  are the rationals they are written as.
\<close>

fun compose_loop ::
  "librosa \<Rightarrow> StyleComposer \<Rightarrow> ref list \<Rightarrow> int list \<Rightarrow> ref list \<Rightarrow> world \<Rightarrow>
     (error + ref list) \<times> world" where
  "compose_loop lib self segments [] new_audio w = (Inr new_audio, w)"
| "compose_loop lib self segments (i # rest) new_audio w =
     (case random_choice segments w of
        (Inl e, w1) \<Rightarrow> (Inl e, w1)
      | (Inr seg, w1) \<Rightarrow>
          (case random_random w1 of
             (u, w2) \<Rightarrow>
               (case (if u < 1 / 2
                      then (case random_uniform (- 1) 1 w2 of
                              (n_steps, w3) \<Rightarrow>
                                librosa_pitch_shift lib seg (StyleComposer.sr self) n_steps w3)
                      else (case random_uniform (95 / 100) (105 / 100) w2 of
                              (rate, w3) \<Rightarrow> librosa_time_stretch lib seg rate w3)) of
                  (Inl e, w4) \<Rightarrow> (Inl e, w4)
                | (Inr seg', w4) \<Rightarrow>
                    compose_loop lib self segments rest (new_audio @ [seg']) w4)))"

definition compose ::
  "librosa \<Rightarrow> StyleComposer \<Rightarrow> ref list \<Rightarrow> rat \<Rightarrow> int \<Rightarrow> world \<Rightarrow> (error + ref) \<times> world" where
  "compose lib self segments variation_strength num_phrases w =
     (case py_range 0 num_phrases 1 of
        Inl e \<Rightarrow> (Inl e, w)
      | Inr iterations \<Rightarrow>
          (case compose_loop lib self segments iterations [] w of
             (Inl e, w') \<Rightarrow> (Inl e, w')
           | (Inr new_audio, w') \<Rightarrow> np_concatenate new_audio w'))"

section \<open>AudioGenerator\<close>

record AudioGenerator =
  input_dir :: string
  output_dir :: string
  sr :: int

text \<open>\<^verbatim>\<open>_transform_audio(self, y)\<close>: both amounts are drawn first, then applied in turn.\<close>

definition transform_audio ::
  "librosa \<Rightarrow> AudioGenerator \<Rightarrow> ref \<Rightarrow> world \<Rightarrow> (error + ref) \<times> world" where
  "transform_audio lib self y w =
     (case random_choice [- 2, - 1, 1, 2 :: int] w of
        (Inl e, w1) \<Rightarrow> (Inl e, w1)
      | (Inr pitch_shift, w1) \<Rightarrow>
          (case random_uniform (9 / 10) (11 / 10) w1 of
             (time_stretch, w2) \<Rightarrow>
               (case librosa_pitch_shift lib y (AudioGenerator.sr self) (of_int pitch_shift) w2 of
                  (Inl e, w3) \<Rightarrow> (Inl e, w3)
                | (Inr y_shifted, w3) \<Rightarrow> librosa_time_stretch lib y_shifted time_stretch w3)))"

text \<open>
  \<^verbatim>\<open>generate(self)\<close>: the directory is listed once, and every entry whose lower-cased
  name ends in ".wav" is loaded, transformed and written. Console output is left out.
\<close>

fun generate_loop ::
  "librosa \<Rightarrow> AudioGenerator \<Rightarrow> string list \<Rightarrow> world \<Rightarrow> (error + unit) \<times> world" where
  "generate_loop lib self [] w = (Inr (), w)"
| "generate_loop lib self (file # rest) w =
     (if endswith (lower file) ''.wav''
      then (case librosa_load lib (input_dir self, file) (AudioGenerator.sr self) w of
              (Inl e, w1) \<Rightarrow> (Inl e, w1)
            | (Inr y, w1) \<Rightarrow>
                (case transform_audio lib self y w1 of
                   (Inl e, w2) \<Rightarrow> (Inl e, w2)
                 | (Inr y_gen, w2) \<Rightarrow>
                     (case sf_write (output_dir self, ''generated_'' @ file) y_gen
                             (AudioGenerator.sr self) w2 of
                        (Inl e, w3) \<Rightarrow> (Inl e, w3)
                      | (Inr u, w3) \<Rightarrow> generate_loop lib self rest w3)))
      else generate_loop lib self rest w)"

definition generate :: "librosa \<Rightarrow> AudioGenerator \<Rightarrow> world \<Rightarrow> (error + unit) \<times> world" where
  "generate lib self w =
     (case os_listdir (input_dir self) w of
        Inl e \<Rightarrow> (Inl e, w)
      | Inr names \<Rightarrow> generate_loop lib self names w)"

section \<open>Auxiliary notions for the statements\<close>

text \<open>The contents of a list of array references.\<close>

definition contents :: "world \<Rightarrow> ref list \<Rightarrow> waveform list" where
  "contents w rs = map (heap w) rs"

text \<open>A state with no arrays, an all-zero random source and an empty file system.\<close>

definition empty_world :: world where
  "empty_world =
     \<lparr>heap = (\<lambda>_. []), next_ref = 0, draws = (\<lambda>_. 0), pos = 0,
      directories = Map.empty, files = Map.empty, written = []\<rparr>"

text \<open>The empty state with one array holding the given samples at reference 0.\<close>

definition world_of :: "waveform \<Rightarrow> world" where
  "world_of v = snd (alloc v empty_world)"

section \<open>The specification's notions\<close>

text \<open>
  The definitions of this section follow the wording of the specification, not the code;
  the theorems below compare them with the functions above.
\<close>

text \<open>
  The Transform Choice of the data model, as it is made from two outputs of the random
  source: the first decides the branch, the second the amount.
\<close>

datatype transform_choice = PitchShift rat | TimeStretch rat

definition transform_choice_of :: "53 word \<Rightarrow> 53 word \<Rightarrow> transform_choice" where
  "transform_choice_of coin amount =
     (if unit_of coin < 1 / 2 then PitchShift (- 1 + (1 - (- 1)) * unit_of amount)
      else TimeStretch (95 / 100 + (105 / 100 - 95 / 100) * unit_of amount))"

fun apply_transform :: "librosa \<Rightarrow> int \<Rightarrow> transform_choice \<Rightarrow> waveform \<Rightarrow> error + waveform" where
  "apply_transform lib rate (PitchShift steps) v = effects_pitch_shift lib v rate steps"
| "apply_transform lib rate (TimeStretch r) v = effects_time_stretch lib v r"

fun within_bounds :: "transform_choice \<Rightarrow> bool" where
  "within_bounds (PitchShift steps) = (- 1 \<le> steps \<and> steps \<le> 1)"
| "within_bounds (TimeStretch r) = (95 / 100 \<le> r \<and> r \<le> 105 / 100)"

text \<open>
  The phrase produced by one iteration that starts at position \<open>p\<close> of the random
  source: the pool is indexed by output \<open>p\<close>, and the choice is made from the next two.
\<close>

definition composed_phrase ::
  "librosa \<Rightarrow> int \<Rightarrow> waveform list \<Rightarrow> (nat \<Rightarrow> 53 word) \<Rightarrow> nat \<Rightarrow> error + waveform" where
  "composed_phrase lib rate pool d p =
     apply_transform lib rate (transform_choice_of (d (p + 1)) (d (p + 2)))
       (pool ! index_of (length pool) (d p))"

text \<open>The results of a sequence of fallible steps, up to the first error.\<close>

fun collect :: "(error + 'a) list \<Rightarrow> error + 'a list" where
  "collect [] = Inr []"
| "collect (x # xs) =
     (case x of
        Inl e \<Rightarrow> Inl e
      | Inr v \<Rightarrow> (case collect xs of Inl e \<Rightarrow> Inl e | Inr vs \<Rightarrow> Inr (v # vs)))"

text \<open>
  The Composed Track: \<open>k\<close> transformed phrases, iteration \<open>j\<close> reading the outputs
  \<open>p + 3 * j\<close>, \<open>p + 3 * j + 1\<close> and \<open>p + 3 * j + 2\<close>, concatenated in that order.
\<close>

definition compose_spec ::
  "librosa \<Rightarrow> int \<Rightarrow> waveform list \<Rightarrow> (nat \<Rightarrow> 53 word) \<Rightarrow> nat \<Rightarrow> nat \<Rightarrow> error + waveform" where
  "compose_spec lib rate pool d p k =
     (case collect (map (\<lambda>j. composed_phrase lib rate pool d (p + 3 * j)) [0..<k]) of
        Inl e \<Rightarrow> Inl e
      | Inr vs \<Rightarrow> Inr (concat vs))"

text \<open>
  The Batch Transformer on one waveform: a pitch shift by an element of the discrete set,
  then a time stretch of the shifted signal.
\<close>

definition batch_transform ::
  "librosa \<Rightarrow> int \<Rightarrow> (nat \<Rightarrow> 53 word) \<Rightarrow> nat \<Rightarrow> waveform \<Rightarrow> error + waveform" where
  "batch_transform lib rate d p v =
     (case effects_pitch_shift lib v rate (of_int ([- 2, - 1, 1, 2] ! index_of 4 (d p))) of
        Inl e \<Rightarrow> Inl e
      | Inr shifted \<Rightarrow>
          effects_time_stretch lib shifted (9 / 10 + (11 / 10 - 9 / 10) * unit_of (d (p + 1))))"

text \<open>
  The output for one input file, and for a list of files, the \<open>j\<close>-th of which reads
  the outputs \<open>p + 2 * j\<close> and \<open>p + 2 * j + 1\<close> of the random source.
\<close>

definition batch_output ::
  "librosa \<Rightarrow> AudioGenerator \<Rightarrow> (path \<rightharpoonup> audio_file) \<Rightarrow> (nat \<Rightarrow> 53 word) \<Rightarrow> nat \<Rightarrow> string \<Rightarrow>
     error + waveform" where
  "batch_output lib self fs d p file =
     (case fs (input_dir self, file) of
        None \<Rightarrow> Inl FileNotFoundError
      | Some f \<Rightarrow>
          (case load lib f (AudioGenerator.sr self) of
             Inl e \<Rightarrow> Inl e
           | Inr v \<Rightarrow> batch_transform lib (AudioGenerator.sr self) d p v))"

fun batch_outputs ::
  "librosa \<Rightarrow> AudioGenerator \<Rightarrow> (path \<rightharpoonup> audio_file) \<Rightarrow> (nat \<Rightarrow> 53 word) \<Rightarrow> nat \<Rightarrow> string list \<Rightarrow>
     (error + waveform) list" where
  "batch_outputs lib self fs d p [] = []"
| "batch_outputs lib self fs d p (file # rest) =
     batch_output lib self fs d p file # batch_outputs lib self fs d (p + 2) rest"

definition wav_names :: "string list \<Rightarrow> string list" where
  "wav_names names = filter (\<lambda>file. endswith (lower file) ''.wav'') names"

definition output_entry :: "AudioGenerator \<Rightarrow> string \<Rightarrow> waveform \<Rightarrow> path \<times> audio_file" where
  "output_entry self file v =
     ((output_dir self, ''generated_'' @ file), (v, AudioGenerator.sr self))"

section \<open>Sample inputs\<close>

text \<open>
  Stand-ins for the external primitives and small states, on which the statements are
  evaluated.
\<close>

definition toy_librosa :: librosa where
  "toy_librosa =
     \<lparr>effects_pitch_shift = (\<lambda>v rate n_steps. Inr (map (\<lambda>x. x + n_steps) v)),
      effects_time_stretch = (\<lambda>v rate. if rate \<le> 0 then Inl ParameterError else Inr (map (\<lambda>x. x * rate) v)),
      load = (\<lambda>f rate. if snd f = rate then Inr (fst f) else Inl ParameterError)\<rparr>"

definition world_with :: "(nat \<Rightarrow> 53 word) \<Rightarrow> waveform list \<Rightarrow> world" where
  "world_with d vs = snd (alloc_all vs (empty_world\<lparr>draws := d\<rparr>))"

definition draws_of :: "53 word list \<Rightarrow> nat \<Rightarrow> 53 word" where
  "draws_of xs i = (if i < length xs then xs ! i else 0)"

definition batch_generator :: AudioGenerator where
  "batch_generator =
     \<lparr>input_dir = ''input_audio'', output_dir = ''generated_music'', AudioGenerator.sr = 22050\<rparr>"

definition batch_world :: world where
  "batch_world =
     empty_world
       \<lparr>directories :=
          [''input_audio'' \<mapsto> [''a.wav'', ''notes.txt'', ''B.WAV''], ''generated_music'' \<mapsto> []],
        files :=
          [(''input_audio'', ''a.wav'') \<mapsto> ([1, 2], 22050),
           (''input_audio'', ''B.WAV'') \<mapsto> ([3], 22050)]\<rparr>"

section \<open>Allocation\<close>

lemma alloc_simps:
  "fst (alloc v w) = next_ref w"
  "heap (snd (alloc v w)) = (heap w)(next_ref w := v)"
  "next_ref (snd (alloc v w)) = Suc (next_ref w)"
  "draws (snd (alloc v w)) = draws w"
  "pos (snd (alloc v w)) = pos w"
  "directories (snd (alloc v w)) = directories w"
  "files (snd (alloc v w)) = files w"
  "written (snd (alloc v w)) = written w"
  by (simp_all add: alloc_def)

lemma alloc_all_Cons:
  "alloc_all (v # vs) w =
     (next_ref w # fst (alloc_all vs (snd (alloc v w))), snd (alloc_all vs (snd (alloc v w))))"
  by (simp add: case_prod_beta alloc_simps)

declare alloc_all.simps(2) [simp del]

lemma alloc_all_refs:
  "fst (alloc_all vs w) = [next_ref w..<next_ref w + length vs]"
proof (induction vs arbitrary: w)
  case Nil
  show ?case by simp
next
  case (Cons v vs)
  have "fst (alloc_all vs (snd (alloc v w))) = [Suc (next_ref w)..<Suc (next_ref w) + length vs]"
    using Cons.IH [of "snd (alloc v w)"] by (simp only: alloc_simps)
  moreover have "[next_ref w..<next_ref w + length (v # vs)] =
      next_ref w # [Suc (next_ref w)..<Suc (next_ref w) + length vs]"
    by (subst upt_rec) simp
  ultimately show ?case
    by (simp only: alloc_all_Cons fst_conv)
qed

lemma alloc_all_frame:
  "next_ref (snd (alloc_all vs w)) = next_ref w + length vs \<and>
   draws (snd (alloc_all vs w)) = draws w \<and>
   pos (snd (alloc_all vs w)) = pos w \<and>
   directories (snd (alloc_all vs w)) = directories w \<and>
   files (snd (alloc_all vs w)) = files w \<and>
   written (snd (alloc_all vs w)) = written w"
proof (induction vs arbitrary: w)
  case Nil
  show ?case by simp
next
  case (Cons v vs)
  from Cons.IH [of "snd (alloc v w)"] show ?case
    by (simp add: alloc_all_Cons alloc_simps)
qed

lemma alloc_all_heap_old:
  "r < next_ref w \<Longrightarrow> heap (snd (alloc_all vs w)) r = heap w r"
proof (induction vs arbitrary: w)
  case Nil
  show ?case by simp
next
  case (Cons v vs)
  have "heap (snd (alloc_all vs (snd (alloc v w)))) r = heap (snd (alloc v w)) r"
    using Cons.prems by (intro Cons.IH) (simp add: alloc_simps)
  with Cons.prems show ?case
    by (simp add: alloc_all_Cons alloc_simps)
qed

lemma alloc_all_heap_new:
  "k < length vs \<Longrightarrow> heap (snd (alloc_all vs w)) (next_ref w + k) = vs ! k"
proof (induction vs arbitrary: w k)
  case Nil
  then show ?case by simp
next
  case (Cons v vs)
  show ?case
  proof (cases k)
    case 0
    have "heap (snd (alloc_all vs (snd (alloc v w)))) (next_ref w) = heap (snd (alloc v w)) (next_ref w)"
      by (rule alloc_all_heap_old) (simp add: alloc_simps)
    with 0 show ?thesis
      by (simp add: alloc_all_Cons alloc_simps)
  next
    case (Suc j)
    with Cons.prems have "j < length vs" by simp
    from Cons.IH [OF this, of "snd (alloc v w)"] Suc show ?thesis
      by (simp add: alloc_all_Cons alloc_simps)
  qed
qed

section \<open>Floats\<close>

declare bit_length.simps [simp del]

lemma bit_length_numeral:
  "bit_length 0 = 0"
  "bit_length 1 = 1"
  "bit_length (Suc 0) = 1"
  "bit_length (numeral k) = Suc (bit_length (numeral k div 2))"
  by (simp_all add: bit_length.simps)

lemma floor_rat_numeral:
  "\<lfloor>numeral a / numeral b :: rat\<rfloor> = numeral a div numeral b"
  "\<lfloor>- (numeral a / numeral b) :: rat\<rfloor> = - numeral a div numeral b"
  "\<lceil>numeral a / numeral b :: rat\<rceil> = - (- numeral a div numeral b)"
  "\<lceil>- (numeral a / numeral b) :: rat\<rceil> = - (numeral a div numeral b)"
proof -
  show "\<lfloor>numeral a / numeral b :: rat\<rfloor> = numeral a div numeral b"
    using floor_divide_of_int_eq [of "numeral a" "numeral b", where ?'a = rat] by simp
  show "\<lfloor>- (numeral a / numeral b) :: rat\<rfloor> = - numeral a div numeral b"
    using floor_divide_of_int_eq [of "- numeral a" "numeral b", where ?'a = rat] by simp
  show "\<lceil>numeral a / numeral b :: rat\<rceil> = - (- numeral a div numeral b)"
    using floor_divide_of_int_eq [of "- numeral a" "numeral b", where ?'a = rat]
    by (simp add: ceiling_def)
  show "\<lceil>- (numeral a / numeral b) :: rat\<rceil> = - (numeral a div numeral b)"
    using floor_divide_of_int_eq [of "numeral a" "numeral b", where ?'a = rat]
    by (simp add: ceiling_def)
qed

lemma floor_rat_one:
  "\<lfloor>1 / numeral b :: rat\<rfloor> = 1 div numeral b"
  "\<lceil>1 / numeral b :: rat\<rceil> = - (- 1 div numeral b)"
proof -
  show "\<lfloor>1 / numeral b :: rat\<rfloor> = 1 div numeral b"
    using floor_divide_of_int_eq [of 1 "numeral b", where ?'a = rat] by simp
  show "\<lceil>1 / numeral b :: rat\<rceil> = - (- 1 div numeral b)"
    using floor_divide_of_int_eq [of "- 1" "numeral b", where ?'a = rat]
    by (simp add: ceiling_def)
qed

lemmas float_eval = float_times_int_def float_of_int_def round_double_def floor_log2_def
  round_even_def scale2_def bit_length_numeral floor_rat_numeral floor_rat_one Let_def

text \<open>
  The products of line 57 at three inputs where rounding decides the length: the double
  nearest to 0.3 at 22050 Hz (the exact product is below 6615), and the doubles nearest
  to 1/3 and to 1/48000 at 3 Hz and 48000 Hz (the exact products are below 1).
\<close>

lemma float_times_int_rounds:
  "float_times_int (Finite (5404319552844595 / 18014398509481984)) 22050 = Inr (Finite 6615)"
  "float_times_int (Finite (6004799503160661 / 18014398509481984)) 3 = Inr (Finite 1)"
  "float_times_int (Finite (6148914691236517 / 295147905179352825856)) 48000 = Inr (Finite 1)"
  by (simp_all add: float_eval)

section \<open>The segmenter\<close>

lemma py_range_pos:
  "0 < n \<Longrightarrow> py_range 0 (int len) n =
     Inr (map (\<lambda>k. int k * n) [0..<(if 0 < len then nat ((int len - 1) div n + 1) else 0)])"
  by (simp add: py_range_def range_len_def)

lemma py_slice_window:
  "py_slice Y (int (k * n)) (int (k * n) + int n) = take n (drop (k * n) Y)"
proof -
  have lo: "slice_bound (length Y) (int (k * n)) = min (k * n) (length Y)"
    unfolding slice_bound_def by (simp del: of_nat_mult)
  have "int (k * n) + int n = int (k * n + n)" by simp
  then have hi: "slice_bound (length Y) (int (k * n) + int n) = min (k * n + n) (length Y)"
    unfolding slice_bound_def by (simp del: of_nat_mult of_nat_add)
  show ?thesis
  proof (cases "k * n < length Y")
    case True
    then have "min (k * n + n) (length Y) - min (k * n) (length Y) = min n (length (drop (k * n) Y))"
      using True by (auto simp: min_def)
    then show ?thesis
      unfolding py_slice_def Let_def lo hi using True by (simp add: min_def)
  next
    case False
    then show ?thesis
      unfolding py_slice_def Let_def lo hi by simp
  qed
qed

lemma window_length:
  "0 < n \<Longrightarrow> length (take n (drop (k * n) Y)) = n \<longleftrightarrow> k < length Y div n"
proof -
  assume n: "0 < n"
  have "length (take n (drop (k * n) Y)) = n \<longleftrightarrow> k * n + n \<le> length Y"
    using n by (auto simp: min_def)
  also have "\<dots> \<longleftrightarrow> Suc k * n \<le> length Y" by (simp add: add.commute)
  also have "\<dots> \<longleftrightarrow> Suc k \<le> length Y div n"
    using n by (simp add: less_eq_div_iff_mult_less_eq)
  finally show ?thesis by auto
qed

lemma windows_cover:
  "0 < n \<Longrightarrow> len div n \<le> (if 0 < len then nat ((int len - 1) div int n + 1) else 0)"
proof (cases "0 < len")
  case False then show ?thesis by simp
next
  case True
  assume n: "0 < n"
  have "(int len - 1) div int n = int ((len - 1) div n)"
    using True by (simp add: zdiv_int of_nat_diff)
  then have e: "nat ((int len - 1) div int n + 1) = Suc ((len - 1) div n)"
    by simp
  have "len div n * n \<le> len" by simp
  have "len div n \<le> Suc ((len - 1) div n)"
  proof (rule ccontr)
    assume "\<not> len div n \<le> Suc ((len - 1) div n)"
    then have "Suc (Suc ((len - 1) div n)) \<le> len div n" by simp
    then have "Suc (Suc ((len - 1) div n)) * n \<le> len div n * n" by (rule mult_le_mono1)
    also have "\<dots> \<le> len" by simp
    finally have "(len - 1) div n * n + 2 * n \<le> len" by simp
    moreover have "len - 1 < (len - 1) div n * n + n"
      using n by (metis add.commute div_mult_mod_eq add_less_cancel_left mod_less_divisor mult.commute)
    ultimately show False using n by linarith
  qed
  with True e show ?thesis by simp
qed

lemma filter_upt_prefix:
  assumes "d \<le> m" and "\<And>k. k < m \<Longrightarrow> P (a + k) \<longleftrightarrow> k < d"
  shows "filter P [a..<a + m] = [a..<a + d]"
proof -
  have split: "[a..<a + m] = [a..<a + d] @ [a + d..<a + m]"
    using assms(1) upt_add_eq_append [of a "a + d" "m - d"] by simp
  have "\<forall>r \<in> set [a..<a + d]. P r"
  proof
    fix r assume "r \<in> set [a..<a + d]"
    then have "r - a < d" "r - a < m" "a + (r - a) = r" using assms(1) by auto
    with assms(2) [of "r - a"] show "P r" by simp
  qed
  moreover have "\<forall>r \<in> set [a + d..<a + m]. \<not> P r"
  proof
    fix r assume "r \<in> set [a + d..<a + m]"
    then have "\<not> r - a < d" "r - a < m" "a + (r - a) = r" by auto
    with assms(2) [of "r - a"] show "\<not> P r" by simp
  qed
  ultimately show ?thesis
    unfolding split filter_append by (simp add: filter_id_conv)
qed

lemma contents_alloc_all_prefix:
  "d \<le> length vs \<Longrightarrow>
   contents (snd (alloc_all vs w)) [next_ref w..<next_ref w + d] = take d vs"
  by (rule nth_equalityI) (simp_all add: contents_def alloc_all_heap_new)

lemma segment_and_score_unfold:
  assumes "float_times_int segment_length (StyleComposer.sr self) = Inr product"
    and "py_int product = Inr s"
  shows "segment_and_score self y segment_length w =
     (case py_range 0 (int (length (heap w y))) s of
        Inl e \<Rightarrow> (Inl e, w)
      | Inr offsets \<Rightarrow>
          (case alloc_all (map (\<lambda>i. py_slice (heap w y) i (i + s)) offsets) w of
             (segments, w') \<Rightarrow>
               (Inr (filter (\<lambda>seg. int (length (heap w' seg)) = s) segments), w')))"
  by (simp add: segment_and_score_def assms)

lemma segment_and_score_error:
  "float_times_int segment_length (StyleComposer.sr self) = Inl e \<Longrightarrow>
   segment_and_score self y segment_length w = (Inl e, w)"
  "float_times_int segment_length (StyleComposer.sr self) = Inr product \<Longrightarrow>
   py_int product = Inl e \<Longrightarrow> segment_and_score self y segment_length w = (Inl e, w)"
  by (simp_all add: segment_and_score_def)

lemma segment_and_score_windows:
  fixes w :: world and y :: ref and n :: nat
  defines "m \<equiv> (if 0 < length (heap w y) then nat ((int (length (heap w y)) - 1) div int n + 1) else 0)"
  defines "vs \<equiv> map (\<lambda>k. take n (drop (k * n) (heap w y))) [0..<m]"
  assumes n: "0 < n"
    and prod: "float_times_int segment_length (StyleComposer.sr self) = Inr product"
    and sps: "py_int product = Inr (int n)"
  shows "segment_and_score self y segment_length w =
           (Inr [next_ref w..<next_ref w + length (heap w y) div n], snd (alloc_all vs w))"
proof -
  have r: "py_range 0 (int (length (heap w y))) (int n) = Inr (map (\<lambda>k. int k * int n) [0..<m])"
    using n by (simp add: py_range_pos m_def)
  have v: "map (\<lambda>i. py_slice (heap w y) i (i + int n)) (map (\<lambda>k. int k * int n) [0..<m]) = vs"
    using py_slice_window [of "heap w y" _ n] by (simp add: vs_def)
  have dm: "length (heap w y) div n \<le> m"
    unfolding m_def using n by (rule windows_cover)
  have len: "length vs = m" by (simp add: vs_def)
  have "filter (\<lambda>seg. int (length (heap (snd (alloc_all vs w)) seg)) = int n)
          [next_ref w..<next_ref w + m] = [next_ref w..<next_ref w + length (heap w y) div n]"
  proof (rule filter_upt_prefix [OF dm])
    fix k assume k: "k < m"
    then have "heap (snd (alloc_all vs w)) (next_ref w + k) = take n (drop (k * n) (heap w y))"
      by (simp add: alloc_all_heap_new len) (simp add: vs_def)
    then show "int (length (heap (snd (alloc_all vs w)) (next_ref w + k))) = int n
                 \<longleftrightarrow> k < length (heap w y) div n"
      using window_length [OF n, of k "heap w y"] by simp
  qed
  then show ?thesis
    unfolding segment_and_score_unfold [OF prod sps] r sum.case v
    by (simp add: case_prod_beta alloc_all_refs len)
qed

lemma segment_and_score_zero:
  assumes "float_times_int segment_length (StyleComposer.sr self) = Inr product"
    and "py_int product = Inr 0"
  shows "segment_and_score self y segment_length w = (Inl ValueError, w)"
  unfolding segment_and_score_unfold [OF assms] by (simp add: py_range_def)

lemma segment_and_score_negative:
  assumes "float_times_int segment_length (StyleComposer.sr self) = Inr product"
    and "py_int product = Inr s" and "s < 0"
  shows "segment_and_score self y segment_length w = (Inr [], w)"
  unfolding segment_and_score_unfold [OF assms(1,2)] using assms(3)
  by (simp add: py_range_def range_len_def)

lemma segment_and_score_contents:
  fixes self :: StyleComposer and segment_length :: pyfloat and w :: world and y :: ref and n :: nat
  defines "r \<equiv> segment_and_score self y segment_length w"
  assumes n: "0 < n"
    and prod: "float_times_int segment_length (StyleComposer.sr self) = Inr product"
    and sps: "py_int product = Inr (int n)"
  shows "fst r = Inr [next_ref w..<next_ref w + length (heap w y) div n]"
    and "contents (snd r) [next_ref w..<next_ref w + length (heap w y) div n] =
           map (\<lambda>i. take n (drop (i * n) (heap w y))) [0..<length (heap w y) div n]"
proof -
  let ?m = "if 0 < length (heap w y) then nat ((int (length (heap w y)) - 1) div int n + 1) else 0"
  let ?vs = "map (\<lambda>k. take n (drop (k * n) (heap w y))) [0..<?m]"
  note eq = segment_and_score_windows [OF n prod sps, of y w]
  show "fst r = Inr [next_ref w..<next_ref w + length (heap w y) div n]"
    unfolding r_def eq by simp
  have dm: "length (heap w y) div n \<le> ?m"
    using n by (rule windows_cover)
  then have "contents (snd (alloc_all ?vs w)) [next_ref w..<next_ref w + length (heap w y) div n]
               = take (length (heap w y) div n) ?vs"
    by (intro contents_alloc_all_prefix) simp
  also have "\<dots> = map (\<lambda>i. take n (drop (i * n) (heap w y))) [0..<length (heap w y) div n]"
    using dm by (simp only: take_map take_upt add_0 min_absorb1)
  finally show "contents (snd r) [next_ref w..<next_ref w + length (heap w y) div n] =
           map (\<lambda>i. take n (drop (i * n) (heap w y))) [0..<length (heap w y) div n]"
    unfolding r_def eq by simp
qed

text \<open>The outcome of line 57 is an error, zero, a negative length or a positive one.\<close>

lemma samples_per_seg_cases:
  obtains e where "float_times_int segment_length (StyleComposer.sr self) = Inl e"
  | product e where "float_times_int segment_length (StyleComposer.sr self) = Inr product"
      and "py_int product = Inl e"
  | product where "float_times_int segment_length (StyleComposer.sr self) = Inr product"
      and "py_int product = Inr 0"
  | product s where "float_times_int segment_length (StyleComposer.sr self) = Inr product"
      and "py_int product = Inr s" and "s < 0"
  | product n where "float_times_int segment_length (StyleComposer.sr self) = Inr product"
      and "py_int product = Inr (int n)" and "0 < n"
proof (cases "float_times_int segment_length (StyleComposer.sr self)")
  case (Inl e)
  then show ?thesis by (rule that(1))
next
  case (Inr product)
  show ?thesis
  proof (cases "py_int product")
    case (Inl e)
    with Inr show ?thesis by (rule that(2))
  next
    case s: (Inr s)
    consider "s = 0" | "s < 0" | "0 < s" by linarith
    then show ?thesis
    proof cases
      case 1
      with Inr s show ?thesis by (intro that(3)) simp_all
    next
      case 2
      with Inr s show ?thesis by (intro that(4))
    next
      case 3
      then have "s = int (nat s)" "0 < nat s" by simp_all
      with Inr s show ?thesis by (intro that(5) [of product "nat s"]) simp_all
    qed
  qed
qed

lemma segment_and_score_frame:
  fixes self :: StyleComposer and segment_length :: pyfloat and w :: world and y :: ref
  defines "r \<equiv> segment_and_score self y segment_length w"
  shows "draws (snd r) = draws w" "pos (snd r) = pos w" "directories (snd r) = directories w"
    "files (snd r) = files w" "written (snd r) = written w"
    "a < next_ref w \<Longrightarrow> heap (snd r) a = heap w a"
proof -
  have "\<exists>vs. snd r = snd (alloc_all vs w)"
  proof (cases rule: samples_per_seg_cases [of segment_length self])
    case (1 e)
    then have "snd r = snd (alloc_all [] w)"
      unfolding r_def by (simp add: segment_and_score_error)
    then show ?thesis ..
  next
    case (2 product e)
    then have "snd r = snd (alloc_all [] w)"
      unfolding r_def by (simp add: segment_and_score_error)
    then show ?thesis ..
  next
    case (3 product)
    then have "snd r = snd (alloc_all [] w)"
      unfolding r_def by (simp add: segment_and_score_zero)
    then show ?thesis ..
  next
    case (4 product s)
    then have "snd r = snd (alloc_all [] w)"
      unfolding r_def by (simp add: segment_and_score_negative)
    then show ?thesis ..
  next
    case (5 product n)
    note eq = segment_and_score_windows [OF 5(3) 5(1) 5(2), of y w]
    show ?thesis
      unfolding r_def eq snd_conv by (rule exI) (rule refl)
  qed
  then obtain vs where vs: "snd r = snd (alloc_all vs w)" ..
  show "draws (snd r) = draws w" "pos (snd r) = pos w" "directories (snd r) = directories w"
    "files (snd r) = files w" "written (snd r) = written w"
    unfolding vs by (simp_all add: alloc_all_frame)
  show "a < next_ref w \<Longrightarrow> heap (snd r) a = heap w a"
    unfolding vs by (rule alloc_all_heap_old)
qed

text \<open>
  Claim C1. When the float product \<open>L * sr\<close> of line 57 is a finite \<open>x\<close> and
  \<open>phrase_len = floor(x)\<close> is positive, the segmenter returns exactly
  \<open>len(w) div phrase_len\<close> phrases; the \<open>i\<close>-th phrase is the window
  \<open>w[i * phrase_len .. (i + 1) * phrase_len)\<close>; every phrase has length \<open>phrase_len\<close>; the
  shorter trailing window is dropped; a waveform shorter than one phrase gives no phrase.
\<close>

theorem segment_phrases:
  fixes self :: StyleComposer and y :: ref and segment_length :: pyfloat and w :: world
    and x :: rat
  defines "phrase_len \<equiv> nat \<lfloor>x\<rfloor>"
  defines "r \<equiv> segment_and_score self y segment_length w"
  assumes prod: "float_times_int segment_length (StyleComposer.sr self) = Inr (Finite x)"
    and pos: "0 < \<lfloor>x\<rfloor>"
  shows "\<exists>ps. fst r = Inr ps
           \<and> length ps = length (heap w y) div phrase_len
           \<and> contents (snd r) ps =
               map (\<lambda>i. take phrase_len (drop (i * phrase_len) (heap w y)))
                 [0..<length (heap w y) div phrase_len]
           \<and> (\<forall>p \<in> set (contents (snd r) ps). length p = phrase_len)
           \<and> (length (heap w y) < phrase_len \<longrightarrow> ps = [])"
proof -
  let ?ps = "[next_ref w..<next_ref w + length (heap w y) div phrase_len]"
  have n: "0 < phrase_len"
    using pos by (simp add: phrase_len_def)
  have sps: "py_int (Finite x) = Inr (int phrase_len)"
    using pos by (simp add: phrase_len_def)
  note facts = segment_and_score_contents [OF n prod sps, of y w, folded r_def]
  have "\<And>i. i < length (heap w y) div phrase_len \<Longrightarrow>
          length (take phrase_len (drop (i * phrase_len) (heap w y))) = phrase_len"
    using window_length [OF n] by blast
  then have "\<forall>p \<in> set (contents (snd r) ?ps). length p = phrase_len"
    unfolding facts(2) by (auto simp del: length_take length_drop)
  moreover have "length (heap w y) < phrase_len \<longrightarrow> ?ps = []"
    by simp
  ultimately show ?thesis
    using facts by (intro exI [of _ ?ps]) simp
qed

theorem segment_phrases_witness:
  "float_times_int (Finite (3 / 2)) (StyleComposer.sr \<lparr>StyleComposer.sr = 2\<rparr>) = Inr (Finite 3) \<and>
   0 < \<lfloor>3 :: rat\<rfloor> \<and>
   (\<exists>ps. fst (segment_and_score \<lparr>StyleComposer.sr = 2\<rparr> 0 (Finite (3 / 2))
              (world_of [1, 2, 3, 4, 5, 6, 7])) = Inr ps \<and>
     length ps = 2 \<and>
     contents (snd (segment_and_score \<lparr>StyleComposer.sr = 2\<rparr> 0 (Finite (3 / 2))
                 (world_of [1, 2, 3, 4, 5, 6, 7]))) ps =
       [[1, 2, 3], [4, 5, 6]]) \<and>
   float_times_int (Finite (5404319552844595 / 18014398509481984))
     (StyleComposer.sr \<lparr>StyleComposer.sr = 22050\<rparr>) = Inr (Finite 6615) \<and>
   fst (segment_and_score \<lparr>StyleComposer.sr = 22050\<rparr> 0
          (Finite (5404319552844595 / 18014398509481984)) (world_of [1, 2, 3, 4, 5, 6, 7])) = Inr []"
proof -
  have p: "float_times_int (Finite (3 / 2)) (StyleComposer.sr \<lparr>StyleComposer.sr = 2\<rparr>) = Inr (Finite 3)"
    by (simp add: float_eval)
  have q: "float_times_int (Finite (5404319552844595 / 18014398509481984))
     (StyleComposer.sr \<lparr>StyleComposer.sr = 22050\<rparr>) = Inr (Finite 6615)"
    by (simp add: float_times_int_rounds)
  have h: "0 < \<lfloor>3 :: rat\<rfloor>" "0 < \<lfloor>6615 :: rat\<rfloor>" by simp_all
  have y: "heap (world_of [1, 2, 3, 4, 5, 6, 7]) 0 = [1, 2, 3, 4, 5, 6, 7]"
    by (simp add: world_of_def alloc_simps empty_world_def)
  from segment_phrases [OF p h(1), of 0 "world_of [1, 2, 3, 4, 5, 6, 7]"]
  have a: "\<exists>ps. fst (segment_and_score \<lparr>StyleComposer.sr = 2\<rparr> 0 (Finite (3 / 2))
              (world_of [1, 2, 3, 4, 5, 6, 7])) = Inr ps \<and>
     length ps = 2 \<and>
     contents (snd (segment_and_score \<lparr>StyleComposer.sr = 2\<rparr> 0 (Finite (3 / 2))
                 (world_of [1, 2, 3, 4, 5, 6, 7]))) ps =
       [[1, 2, 3], [4, 5, 6]]"
    unfolding y by (simp add: upt_conv_Cons) blast
  from segment_phrases [OF q h(2), of 0 "world_of [1, 2, 3, 4, 5, 6, 7]"]
  have b: "fst (segment_and_score \<lparr>StyleComposer.sr = 22050\<rparr> 0
          (Finite (5404319552844595 / 18014398509481984)) (world_of [1, 2, 3, 4, 5, 6, 7])) = Inr []"
    unfolding y by auto
  from p q h(1) a b show ?thesis by blast
qed

text \<open>
  Claim C4, as amended. When the float product \<open>L * sr\<close> of line 57 is a finite \<open>x\<close>
  with \<open>floor(x) \<le> 0\<close>, the segmenter fails only if the truncated length \<open>int(x)\<close> is
  zero, that is for \<open>- 1 < x\<close>, with the ValueError of a zero range step; for \<open>x \<le> - 1\<close>
  the range is empty and the call returns the empty sequence without an error. The state
  is unchanged either way.
\<close>

theorem segment_nonpositive_length:
  fixes self :: StyleComposer and y :: ref and segment_length :: pyfloat and w :: world
    and x :: rat
  assumes prod: "float_times_int segment_length (StyleComposer.sr self) = Inr (Finite x)"
    and nonpos: "\<lfloor>x\<rfloor> \<le> 0"
  shows "segment_and_score self y segment_length w =
           (if - 1 < x then (Inl ValueError, w) else (Inr [], w))"
proof (cases "- 1 < x")
  case True
  have "x < 1" using nonpos by linarith
  with True have "py_int (Finite x) = Inr 0"
    by (auto simp: floor_eq_iff ceiling_eq_iff)
  with True show ?thesis by (simp add: segment_and_score_zero [OF prod])
next
  case False
  then have "py_int (Finite x) = Inr \<lceil>x\<rceil>" "\<lceil>x\<rceil> < 0"
    by (auto simp: ceiling_less_iff)
  with False show ?thesis by (simp add: segment_and_score_negative [OF prod])
qed

theorem segment_nonpositive_length_witness:
  "float_times_int (Finite (1 / 4)) (StyleComposer.sr \<lparr>StyleComposer.sr = 2\<rparr>) = Inr (Finite (1 / 2)) \<and>
   \<lfloor>1 / 2 :: rat\<rfloor> \<le> 0 \<and>
   float_times_int (Finite (- 2)) (StyleComposer.sr \<lparr>StyleComposer.sr = 22050\<rparr>)
     = Inr (Finite (- 44100)) \<and>
   \<lfloor>- 44100 :: rat\<rfloor> \<le> 0 \<and>
   segment_and_score \<lparr>StyleComposer.sr = 2\<rparr> 0 (Finite (1 / 4)) (world_of [1, 2, 3])
     = (Inl ValueError, world_of [1, 2, 3]) \<and>
   segment_and_score \<lparr>StyleComposer.sr = 22050\<rparr> 0 (Finite (- 2)) (world_of [1, 2, 3])
     = (Inr [], world_of [1, 2, 3])"
proof -
  have p: "float_times_int (Finite (1 / 4)) (StyleComposer.sr \<lparr>StyleComposer.sr = 2\<rparr>)
             = Inr (Finite (1 / 2))"
    "float_times_int (Finite (- 2)) (StyleComposer.sr \<lparr>StyleComposer.sr = 22050\<rparr>)
             = Inr (Finite (- 44100))"
    by (simp_all add: float_eval)
  have h: "\<lfloor>1 / 2 :: rat\<rfloor> \<le> 0" "\<lfloor>- 44100 :: rat\<rfloor> \<le> 0"
    by (simp_all add: floor_rat_one)
  from segment_nonpositive_length [OF p(1) h(1), of 0 "world_of [1, 2, 3]"]
    segment_nonpositive_length [OF p(2) h(2), of 0 "world_of [1, 2, 3]"] p h
  show ?thesis by simp
qed

text \<open>
  Claim C4 as stated fails: a segment length of \<open>- 2\<close> seconds at 22050 Hz has the
  product \<open>- 44100\<close>, so \<open>floor(L * sr) \<le> 0\<close>, and the call returns the empty sequence.
\<close>

theorem segment_negative_length_counterexample:
  "float_times_int (Finite (- 2)) (StyleComposer.sr \<lparr>StyleComposer.sr = 22050\<rparr>)
     = Inr (Finite (- 44100)) \<and>
   \<lfloor>- 44100 :: rat\<rfloor> \<le> 0 \<and>
   fst (segment_and_score \<lparr>StyleComposer.sr = 22050\<rparr> 0 (Finite (- 2)) (world_of [1, 2, 3])) = Inr []"
  by (simp add: segment_and_score_def float_eval py_range_def range_len_def)

text \<open>
  Claim C7. Segmentation is deterministic and pure. Two calls on arrays with the same
  samples, in any two states (whatever the random source, the files and the arrays
  allocated before), give the same outcome: the same error, or phrase sequences with the
  same samples. A call consumes no output of the random source and changes neither the
  files nor any array that existed before it.
\<close>

theorem segment_deterministic_pure:
  fixes self :: StyleComposer and y1 y2 :: ref and segment_length :: pyfloat and w1 w2 :: world
  defines "r1 \<equiv> segment_and_score self y1 segment_length w1"
  defines "r2 \<equiv> segment_and_score self y2 segment_length w2"
  assumes same: "heap w1 y1 = heap w2 y2"
  shows "map_sum id (contents (snd r1)) (fst r1) = map_sum id (contents (snd r2)) (fst r2)
       \<and> draws (snd r1) = draws w1 \<and> pos (snd r1) = pos w1
       \<and> directories (snd r1) = directories w1 \<and> files (snd r1) = files w1
       \<and> written (snd r1) = written w1
       \<and> (\<forall>a<next_ref w1. heap (snd r1) a = heap w1 a)"
proof -
  have "map_sum id (contents (snd r1)) (fst r1) = map_sum id (contents (snd r2)) (fst r2)"
  proof (cases rule: samples_per_seg_cases [of segment_length self])
    case (1 e)
    then show ?thesis
      unfolding r1_def r2_def by (simp add: segment_and_score_error)
  next
    case (2 product e)
    then show ?thesis
      unfolding r1_def r2_def by (simp add: segment_and_score_error)
  next
    case (3 product)
    then show ?thesis
      unfolding r1_def r2_def by (simp add: segment_and_score_zero)
  next
    case (4 product s)
    then show ?thesis
      unfolding r1_def r2_def by (simp add: segment_and_score_negative contents_def)
  next
    case (5 product n)
    note a = segment_and_score_contents [OF 5(3) 5(1) 5(2), of y1 w1, folded r1_def]
    note b = segment_and_score_contents [OF 5(3) 5(1) 5(2), of y2 w2, folded r2_def]
    from a b show ?thesis
      unfolding same by simp
  qed
  then show ?thesis
    unfolding r1_def by (simp add: segment_and_score_frame)
qed

theorem segment_deterministic_pure_witness:
  "heap (world_of [1, 2, 3, 4, 5]) 0 = heap (snd (alloc [1, 2, 3, 4, 5] ((world_of [9])\<lparr>pos := 7\<rparr>))) 1 \<and>
   map_sum id (contents (snd (segment_and_score \<lparr>StyleComposer.sr = 1\<rparr> 0 (Finite 2) (world_of [1, 2, 3, 4, 5]))))
     (fst (segment_and_score \<lparr>StyleComposer.sr = 1\<rparr> 0 (Finite 2) (world_of [1, 2, 3, 4, 5]))) =
   map_sum id (contents (snd (segment_and_score \<lparr>StyleComposer.sr = 1\<rparr> 1 (Finite 2)
       (snd (alloc [1, 2, 3, 4, 5] ((world_of [9])\<lparr>pos := 7\<rparr>))))))
     (fst (segment_and_score \<lparr>StyleComposer.sr = 1\<rparr> 1 (Finite 2) (snd (alloc [1, 2, 3, 4, 5] ((world_of [9])\<lparr>pos := 7\<rparr>))))) \<and>
   pos (snd (segment_and_score \<lparr>StyleComposer.sr = 1\<rparr> 0 (Finite 2) (world_of [1, 2, 3, 4, 5]))) = 0 \<and>
   heap (snd (segment_and_score \<lparr>StyleComposer.sr = 1\<rparr> 0 (Finite 2) (world_of [1, 2, 3, 4, 5]))) 0 = [1, 2, 3, 4, 5]"
proof -
  have h: "heap (world_of [1, 2, 3, 4, 5]) 0 =
      heap (snd (alloc [1, 2, 3, 4, 5] ((world_of [9])\<lparr>pos := 7\<rparr>))) 1"
    by (simp add: world_of_def alloc_def empty_world_def)
  have p: "pos (world_of [1, 2, 3, 4, 5]) = 0" "next_ref (world_of [1, 2, 3, 4, 5]) = 1"
    "heap (world_of [1, 2, 3, 4, 5]) 0 = [1, 2, 3, 4, 5]"
    by (simp_all add: world_of_def alloc_def empty_world_def)
  from segment_deterministic_pure [OF h, of "\<lparr>StyleComposer.sr = 1\<rparr>" "Finite 2"] h show ?thesis
    by (simp add: p)
qed

section \<open>The random source\<close>

lemma unit_of_bounds: "0 \<le> unit_of m" "unit_of m < 1"
proof -
  have g: "0 \<le> (of_nat n :: rat) / 2 ^ 53 \<and> (of_nat n :: rat) / 2 ^ 53 < 1"
    if "n < 2 ^ 53" for n :: nat
  proof -
    from that have "(of_nat n :: rat) < of_nat (2 ^ 53)" by (simp only: of_nat_less_iff)
    then show ?thesis by simp
  qed
  have "unat m < 2 ^ 53" using unsigned_less [of m, where ?'a = nat] by simp
  from g [OF this] show "0 \<le> unit_of m" "unit_of m < 1"
    unfolding unit_of_def by blast+
qed

lemma index_of_less: "0 < n \<Longrightarrow> index_of n m < n"
proof -
  assume n: "0 < n"
  have "unat m < 2 ^ 53" using unsigned_less [of m] by simp
  then have "unat m * n < 2 ^ 53 * n" using n by simp
  then show ?thesis
    unfolding index_of_def by (simp add: div_less_iff_less_mult mult.commute)
qed

text \<open>Exactly half of the \<open>2 ^ 53\<close> outputs of the source read as a float below 0.5.\<close>

lemma coin_count: "card {m :: 53 word. unit_of m < 1 / 2} = 2 ^ 52"
proof -
  have iff: "unit_of m < 1 / 2 \<longleftrightarrow> unat m < 2 ^ 52" for m :: "53 word"
  proof -
    have "unit_of m < 1 / 2 \<longleftrightarrow> (of_nat (unat m) :: rat) < of_nat (2 ^ 52)"
      unfolding unit_of_def by (simp add: field_simps)
    also have "\<dots> \<longleftrightarrow> unat m < 2 ^ 52" by (simp only: of_nat_less_iff)
    finally show ?thesis .
  qed
  have "bij_betw unat {m :: 53 word. unat m < 2 ^ 52} {..<2 ^ 52}"
  proof (rule bij_betwI')
    fix x y :: "53 word"
    show "unat x = unat y \<longleftrightarrow> x = y" by (simp add: word_unat_eq_iff)
  next
    fix x :: "53 word" assume "x \<in> {m. unat m < 2 ^ 52}"
    then show "unat x \<in> {..<2 ^ 52}" by simp
  next
    fix n :: nat assume "n \<in> {..<2 ^ 52}"
    then have n: "n < 2 ^ 52" by simp
    then have "n < 2 ^ LENGTH(53)" by simp
    then have "unat (word_of_nat n :: 53 word) = n"
      by (simp add: of_nat_inverse)
    with n show "\<exists>x \<in> {m :: 53 word. unat m < 2 ^ 52}. n = unat x"
      by (intro bexI [of _ "word_of_nat n"]) simp_all
  qed
  then have "card {m :: 53 word. unat m < 2 ^ 52} = card {..<(2 :: nat) ^ 52}"
    by (rule bij_betw_same_card)
  then show ?thesis unfolding iff by simp
qed

lemma random_simps:
  "random_random w = (unit_of (draws w (pos w)), w\<lparr>pos := Suc (pos w)\<rparr>)"
  "random_uniform a b w = (a + (b - a) * unit_of (draws w (pos w)), w\<lparr>pos := Suc (pos w)\<rparr>)"
  "seq \<noteq> [] \<Longrightarrow> random_choice seq w =
     (Inr (seq ! index_of (length seq) (draws w (pos w))), w\<lparr>pos := Suc (pos w)\<rparr>)"
  "random_choice [] w = (Inl IndexError, w)"
  by (simp_all add: random_random_def random_uniform_def random_choice_def randbelow_def)

section \<open>The composer\<close>

lemma within_bounds_choice: "within_bounds (transform_choice_of coin amount)"
  using unit_of_bounds [of amount] by (simp add: transform_choice_of_def)

lemma compose_loop_step:
  assumes "segments \<noteq> []"
  shows "compose_loop lib self segments (i # rest) new_audio w =
     (case composed_phrase lib (StyleComposer.sr self) (contents w segments) (draws w) (pos w) of
        Inl e \<Rightarrow> (Inl e, w\<lparr>pos := pos w + 3\<rparr>)
      | Inr v \<Rightarrow> compose_loop lib self segments rest (new_audio @ [next_ref w])
                   (snd (alloc v (w\<lparr>pos := pos w + 3\<rparr>))))"
proof -
  have i: "index_of (length segments) (draws w (pos w)) < length segments"
    using assms by (simp add: index_of_less)
  show ?thesis
    using assms i
    by (simp add: random_simps composed_phrase_def contents_def transform_choice_of_def
        librosa_pitch_shift_def librosa_time_stretch_def alloc_def eval_nat_numeral
        split: sum.splits)
qed


lemma collect_shift:
  "collect (map (\<lambda>j. f (p + 3 * j)) [0..<Suc n]) =
     (case f p of
        Inl e \<Rightarrow> Inl e
      | Inr v \<Rightarrow> (case collect (map (\<lambda>j. f (p + 3 + 3 * j)) [0..<n]) of
                   Inl e \<Rightarrow> Inl e | Inr vs \<Rightarrow> Inr (v # vs)))"
proof -
  have "[0..<Suc n] = 0 # map Suc [0..<n]"
    by (simp add: upt_conv_Cons map_Suc_upt del: upt_Suc)
  then have "map (\<lambda>j. f (p + 3 * j)) [0..<Suc n] = f p # map (\<lambda>j. f (p + 3 + 3 * j)) [0..<n]"
    by (simp add: comp_def add.assoc del: upt_Suc)
  then show ?thesis by (simp del: upt_Suc)
qed

lemma compose_loop_spec:
  assumes "segments \<noteq> []" and "\<forall>r \<in> set segments. r < next_ref w"
  shows "case collect (map (\<lambda>j. composed_phrase lib (StyleComposer.sr self) (contents w segments)
                               (draws w) (pos w + 3 * j)) [0..<length iterations]) of
           Inl e \<Rightarrow> fst (compose_loop lib self segments iterations new_audio w) = Inl e
         | Inr vs \<Rightarrow>
             (\<exists>rs. fst (compose_loop lib self segments iterations new_audio w) = Inr (new_audio @ rs)
                \<and> contents (snd (compose_loop lib self segments iterations new_audio w)) rs = vs
                \<and> (\<forall>a<next_ref w.
                      heap (snd (compose_loop lib self segments iterations new_audio w)) a = heap w a)
                \<and> pos (snd (compose_loop lib self segments iterations new_audio w))
                    = pos w + 3 * length iterations)"
  using assms(2)
proof (induction iterations arbitrary: new_audio w)
  case Nil
  show ?case by (simp add: contents_def)
next
  case (Cons i rest)
  let ?f = "composed_phrase lib (StyleComposer.sr self) (contents w segments) (draws w)"
  note step = compose_loop_step [OF assms(1), of lib self i rest new_audio w]
  show ?case
  proof (cases "?f (pos w)")
    case (Inl e)
    then show ?thesis
      unfolding step length_Cons collect_shift by simp
  next
    case (Inr v)
    let ?w = "snd (alloc v (w\<lparr>pos := pos w + 3\<rparr>))"
    have alloc': "\<forall>r \<in> set segments. r < next_ref ?w"
      using Cons.prems by (auto simp: alloc_simps)
    have same: "contents ?w segments = contents w segments"
      using Cons.prems by (auto simp: contents_def alloc_simps)
    have dp: "draws ?w = draws w" "pos ?w = pos w + 3" "next_ref ?w = Suc (next_ref w)"
      "heap ?w (next_ref w) = v" "\<And>a. a < next_ref w \<Longrightarrow> heap ?w a = heap w a"
      by (simp_all add: alloc_simps)
    note ih = Cons.IH [OF alloc', of "new_audio @ [next_ref w]", unfolded same dp]
    show ?thesis
    proof (cases "collect (map (\<lambda>j. ?f (pos w + 3 + 3 * j)) [0..<length rest])")
      case (Inl e)
      with ih Inr show ?thesis
        unfolding step length_Cons collect_shift by simp
    next
      case inr: (Inr vs)
      with ih obtain rs where rs:
        "fst (compose_loop lib self segments rest (new_audio @ [next_ref w]) ?w)
           = Inr ((new_audio @ [next_ref w]) @ rs)"
        "contents (snd (compose_loop lib self segments rest (new_audio @ [next_ref w]) ?w)) rs = vs"
        "\<forall>a<Suc (next_ref w).
           heap (snd (compose_loop lib self segments rest (new_audio @ [next_ref w]) ?w)) a = heap ?w a"
        "pos (snd (compose_loop lib self segments rest (new_audio @ [next_ref w]) ?w))
           = pos w + 3 + 3 * length rest"
        by auto
      have "contents (snd (compose_loop lib self segments rest (new_audio @ [next_ref w]) ?w))
              (next_ref w # rs) = v # vs"
        using rs(2,3) dp(4) by (simp add: contents_def)
      moreover have "\<forall>a<next_ref w.
          heap (snd (compose_loop lib self segments rest (new_audio @ [next_ref w]) ?w)) a = heap w a"
        using rs(3) dp(5) by simp
      ultimately show ?thesis
        using Inr inr rs(1,4)
        unfolding step length_Cons collect_shift
        by (simp del: upt_Suc)
    qed
  qed
qed

lemma py_range_count: "py_range 0 k 1 = Inr (map int [0..<nat k])"
  by (simp add: py_range_def range_len_def)

lemma collect_length: "collect xs = Inr vs \<Longrightarrow> length vs = length xs"
  by (induction xs arbitrary: vs) (auto split: sum.splits)

lemma np_concatenate_simps:
  "np_concatenate [] w = (Inl ValueError, w)"
  "rs \<noteq> [] \<Longrightarrow> np_concatenate rs w = (Inr (next_ref w), snd (alloc (concat (contents w rs)) w))"
  by (simp_all add: np_concatenate_def contents_def alloc_def)

lemma compose_unfold:
  "compose lib self segments variation_strength num_phrases w =
     (case fst (compose_loop lib self segments (map int [0..<nat num_phrases]) [] w) of
        Inl e \<Rightarrow> (Inl e, snd (compose_loop lib self segments (map int [0..<nat num_phrases]) [] w))
      | Inr new_audio \<Rightarrow>
          np_concatenate new_audio
            (snd (compose_loop lib self segments (map int [0..<nat num_phrases]) [] w)))"
  by (simp add: compose_def py_range_count split: prod.splits sum.splits)

text \<open>
  The deterministic skeleton of compose, for a non-empty pool of allocated phrases and
  \<open>num_phrases \<ge> 1\<close>: the outcome is that of the specification's loop over the outputs
  of the random source, and the draws stay within their ranges.
\<close>

lemma compose_skeleton:
  fixes lib :: librosa and self :: StyleComposer and segments :: "ref list"
    and variation_strength :: rat and num_phrases :: int and w :: world
  defines "r \<equiv> compose lib self segments variation_strength num_phrases w"
  assumes ne: "segments \<noteq> []" and k: "1 \<le> num_phrases"
    and allocated: "\<forall>a \<in> set segments. a < next_ref w"
  shows "map_sum id (heap (snd r)) (fst r) =
           compose_spec lib (StyleComposer.sr self) (contents w segments) (draws w) (pos w)
             (nat num_phrases)
       \<and> (\<forall>j<nat num_phrases.
            index_of (length segments) (draws w (pos w + 3 * j)) < length segments
          \<and> within_bounds (transform_choice_of (draws w (pos w + 3 * j + 1))
                            (draws w (pos w + 3 * j + 2))))
       \<and> (\<forall>a. fst r = Inr a \<longrightarrow> pos (snd r) = pos w + 3 * nat num_phrases)
       \<and> card {coin. \<exists>steps. transform_choice_of coin amount = PitchShift steps} = 2 ^ 52"
proof -
  let ?loop = "compose_loop lib self segments (map int [0..<nat num_phrases]) [] w"
  let ?c = "collect (map (\<lambda>j. composed_phrase lib (StyleComposer.sr self) (contents w segments)
                               (draws w) (pos w + 3 * j)) [0..<nat num_phrases])"
  note spec = compose_loop_spec [OF ne allocated, of lib self "map int [0..<nat num_phrases]" "[]"]
  have bounds: "\<forall>j<nat num_phrases.
            index_of (length segments) (draws w (pos w + 3 * j)) < length segments
          \<and> within_bounds (transform_choice_of (draws w (pos w + 3 * j + 1))
                            (draws w (pos w + 3 * j + 2)))"
    using ne by (simp add: index_of_less within_bounds_choice)
  have main: "map_sum id (heap (snd r)) (fst r) =
           compose_spec lib (StyleComposer.sr self) (contents w segments) (draws w) (pos w)
             (nat num_phrases)
       \<and> (\<forall>a. fst r = Inr a \<longrightarrow> pos (snd r) = pos w + 3 * nat num_phrases)"
  proof (cases ?c)
    case (Inl e)
    with spec have "fst ?loop = Inl e" by simp
    then have "fst r = Inl e"
      unfolding r_def compose_unfold by simp
    with Inl show ?thesis
      by (simp add: compose_spec_def)
  next
    case (Inr vs)
    with spec obtain rs where rs: "fst ?loop = Inr rs" "contents (snd ?loop) rs = vs"
      "pos (snd ?loop) = pos w + 3 * nat num_phrases"
      by auto
    from Inr have "length vs = nat num_phrases"
      by (simp add: collect_length)
    with rs(2) k have "rs \<noteq> []"
      by (auto simp: contents_def)
    then have "r = (Inr (next_ref (snd ?loop)), snd (alloc (concat vs) (snd ?loop)))"
      unfolding r_def compose_unfold rs(1) by (simp add: np_concatenate_simps rs(2))
    with Inr rs(3) show ?thesis
      by (simp add: compose_spec_def alloc_simps)
  qed
  have "{coin. \<exists>steps. transform_choice_of coin amount = PitchShift steps}
          = {m. unit_of m < 1 / 2}"
    by (auto simp: transform_choice_of_def)
  then have "card {coin. \<exists>steps. transform_choice_of coin amount = PitchShift steps} = 2 ^ 52"
    by (simp only: coin_count)
  with bounds main show ?thesis by blast
qed


lemma compose_skeleton_sample:
  "[0, 1 :: ref] \<noteq> [] \<and> (1 :: int) \<le> 2 \<and>
   next_ref (world_with (draws_of [0, 0, 0, 2 ^ 52, 2 ^ 52, 0]) [[1, 2], [3, 4]]) = 2 \<and>
   map_sum id
     (heap (snd (compose toy_librosa \<lparr>StyleComposer.sr = 22050\<rparr> [0, 1] (1 / 10) 2
        (world_with (draws_of [0, 0, 0, 2 ^ 52, 2 ^ 52, 0]) [[1, 2], [3, 4]]))))
     (fst (compose toy_librosa \<lparr>StyleComposer.sr = 22050\<rparr> [0, 1] (1 / 10) 2
        (world_with (draws_of [0, 0, 0, 2 ^ 52, 2 ^ 52, 0]) [[1, 2], [3, 4]]))) =
     Inr [0, 1, 57 / 20, 19 / 5]"
proof -
  let ?w = "world_with (draws_of [0, 0, 0, 2 ^ 52, 2 ^ 52, 0]) [[1, 2], [3, 4]]"
  have w: "next_ref ?w = 2" "pos ?w = 0" "contents ?w [0, 1] = [[1, 2], [3, 4]]"
    "draws ?w = draws_of [0, 0, 0, 2 ^ 52, 2 ^ 52, 0]"
    by (simp_all add: world_with_def empty_world_def alloc_all.simps alloc_def contents_def)
  have h: "[0, 1 :: ref] \<noteq> []" "(1 :: int) \<le> 2" "\<forall>a \<in> set [0, 1]. a < next_ref ?w"
    using w(1) by simp_all
  have "compose_spec toy_librosa 22050 [[1, 2], [3, 4]] (draws_of [0, 0, 0, 2 ^ 52, 2 ^ 52, 0]) 0 2
          = Inr [0, 1, 57 / 20, 19 / 5]"
    by (simp add: compose_spec_def composed_phrase_def transform_choice_of_def index_of_def
        unit_of_def draws_of_def toy_librosa_def upt_conv_Cons)
  with compose_skeleton [OF h, of toy_librosa "\<lparr>StyleComposer.sr = 22050\<rparr>" "1 / 10"] h
  show ?thesis using w by simp
qed

lemma compose_loop_frame:
  "next_ref w \<le> next_ref (snd (compose_loop lib self segments iterations new_audio w)) \<and>
   (\<forall>a<next_ref w. heap (snd (compose_loop lib self segments iterations new_audio w)) a = heap w a)"
proof (induction iterations arbitrary: new_audio w)
  case Nil
  show ?case by simp
next
  case (Cons i rest)
  show ?case
  proof (cases "segments = []")
    case True
    then show ?thesis by (simp add: random_simps)
  next
    case False
    note step = compose_loop_step [OF False, of lib self i rest new_audio w]
    show ?thesis
    proof (cases "composed_phrase lib (StyleComposer.sr self) (contents w segments) (draws w) (pos w)")
      case (Inl e)
      then show ?thesis unfolding step by simp
    next
      case (Inr v)
      let ?w = "snd (alloc v (w\<lparr>pos := pos w + 3\<rparr>))"
      from Cons.IH [where w = ?w and new_audio = "new_audio @ [next_ref w]"] Inr show ?thesis
        unfolding step by (simp add: alloc_simps)
    qed
  qed
qed

lemma compose_frame:
  "a < next_ref w \<Longrightarrow>
   heap (snd (compose lib self segments variation_strength num_phrases w)) a = heap w a"
proof -
  assume a: "a < next_ref w"
  let ?loop = "compose_loop lib self segments (map int [0..<nat num_phrases]) [] w"
  note f = compose_loop_frame [of w lib self segments "map int [0..<nat num_phrases]" "[]"]
  from f a have old: "heap (snd ?loop) a = heap w a" "a < next_ref (snd ?loop)" by auto
  show ?thesis
  proof (cases "fst ?loop")
    case (Inl e)
    with old show ?thesis unfolding compose_unfold by simp
  next
    case (Inr rs)
    with old show ?thesis
      unfolding compose_unfold by (cases "rs = []") (simp_all add: np_concatenate_simps alloc_simps)
  qed
qed

text \<open>
  Claim C9. compose never mutates the pool: every array that exists before the call,
  and so every phrase of the pool, has the same samples after it, whatever the outcome;
  a second call on the resulting state finds the same pool contents.
\<close>

theorem compose_leaves_pool:
  fixes lib :: librosa and self :: StyleComposer and segments :: "ref list"
    and variation_strength :: rat and num_phrases :: int and w :: world
  defines "w' \<equiv> snd (compose lib self segments variation_strength num_phrases w)"
  assumes allocated: "\<forall>a \<in> set segments. a < next_ref w"
  shows "contents w' segments = contents w segments
       \<and> (\<forall>a<next_ref w. heap w' a = heap w a)
       \<and> contents (snd (compose lib self segments variation_strength num_phrases w')) segments
           = contents w segments"
proof -
  have frame: "\<forall>a<next_ref w. heap w' a = heap w a"
    unfolding w'_def by (simp add: compose_frame)
  with allocated have c: "contents w' segments = contents w segments"
    by (simp add: contents_def)
  have "next_ref w \<le> next_ref w'"
  proof -
    let ?loop = "compose_loop lib self segments (map int [0..<nat num_phrases]) [] w"
    have "next_ref w \<le> next_ref (snd ?loop)" by (simp add: compose_loop_frame)
    then show ?thesis
      unfolding w'_def compose_unfold
      by (cases "fst ?loop") (auto simp: np_concatenate_def alloc_simps case_prod_beta)
  qed
  with allocated have "\<forall>a \<in> set segments. a < next_ref w'" by auto
  then have "contents (snd (compose lib self segments variation_strength num_phrases w')) segments
           = contents w' segments"
    by (simp add: contents_def compose_frame)
  with frame c show ?thesis by simp
qed

theorem compose_leaves_pool_witness:
  "next_ref (world_with (draws_of [0, 0, 0, 2 ^ 52, 2 ^ 52, 0]) [[1, 2], [3, 4]]) = 2 \<and>
   contents (snd (compose toy_librosa \<lparr>StyleComposer.sr = 22050\<rparr> [0, 1] (1 / 10) 2
        (world_with (draws_of [0, 0, 0, 2 ^ 52, 2 ^ 52, 0]) [[1, 2], [3, 4]]))) [0, 1] =
     [[1, 2], [3, 4]]"
proof -
  let ?w = "world_with (draws_of [0, 0, 0, 2 ^ 52, 2 ^ 52, 0]) [[1, 2], [3, 4]]"
  have w: "next_ref ?w = 2" "contents ?w [0, 1] = [[1, 2], [3, 4]]"
    by (simp_all add: world_with_def empty_world_def alloc_all.simps alloc_def contents_def)
  have h: "\<forall>a \<in> set [0, 1]. a < next_ref ?w"
    using w(1) by simp
  from compose_leaves_pool [OF h, of toy_librosa "\<lparr>StyleComposer.sr = 22050\<rparr>" "1 / 10" 2]
  show ?thesis using w by simp
qed

text \<open>
  Claim C3, as amended. With an empty pool compose fails for every \<open>num_phrases\<close> and
  leaves the state as it was, but the error is that of the empty pool only for
  \<open>num_phrases \<ge> 1\<close>: the first draw raises the IndexError of \<^verbatim>\<open>random.choice\<close> on an
  empty sequence. For \<open>num_phrases \<le> 0\<close> the loop does not run and the call fails with
  the ValueError of concatenating no array, as it does for a non-empty pool.
\<close>

theorem compose_empty_pool_fails:
  "compose lib self [] variation_strength num_phrases w =
     (Inl (if 1 \<le> num_phrases then IndexError else ValueError), w)"
proof (cases "1 \<le> num_phrases")
  case True
  then have "[0..<nat num_phrases] = 0 # [Suc 0..<nat num_phrases]"
    by (simp add: upt_conv_Cons)
  with True show ?thesis
    unfolding compose_unfold by (simp add: random_simps)
next
  case False
  then show ?thesis
    unfolding compose_unfold by (simp add: np_concatenate_simps)
qed

text \<open>
  Claim C3 as stated fails: with \<open>num_phrases = 0\<close> the empty pool does not raise the
  error of an empty pool (the IndexError of the draw), but the ValueError of the
  concatenation, the same error a pool of one phrase gives.
\<close>

theorem compose_empty_pool_counterexample:
  "fst (compose toy_librosa \<lparr>StyleComposer.sr = 22050\<rparr> [] (1 / 10) 0 empty_world) = Inl ValueError \<and>
   fst (compose toy_librosa \<lparr>StyleComposer.sr = 22050\<rparr> [] (1 / 10) 0 empty_world) \<noteq> Inl IndexError \<and>
   fst (compose toy_librosa \<lparr>StyleComposer.sr = 22050\<rparr> [0] (1 / 10) 0 (world_of [1, 2]))
     = Inl ValueError"
  by (simp add: compose_def py_range_def range_len_def np_concatenate_def)

text \<open>
  Claim C8. The parameter \<open>variation_strength\<close> has no effect: for the same pool, phrase
  count and state (the random source included), two calls that differ only in its value
  return the same outcome and the same final state.
\<close>

theorem compose_ignores_variation_strength:
  "compose lib self segments variation_strength num_phrases w =
   compose lib self segments variation_strength' num_phrases w"
  by (simp add: compose_def)

text \<open>
  Claim C10. With \<open>num_phrases = 0\<close> compose raises an error instead of returning an
  empty waveform, for every pool: the loop runs zero times and the concatenation of the
  empty list fails with ValueError.
\<close>

theorem compose_zero_phrases_fails:
  "compose lib self segments variation_strength 0 w = (Inl ValueError, w)"
  unfolding compose_unfold by (simp add: np_concatenate_simps)

section \<open>The batch transformer\<close>

lemma transform_audio_eq:
  "transform_audio lib self y w =
     (case effects_pitch_shift lib (heap w y) (AudioGenerator.sr self)
             (of_int ([- 2, - 1, 1, 2] ! index_of 4 (draws w (pos w)))) of
        Inl e \<Rightarrow> (Inl e, w\<lparr>pos := pos w + 2\<rparr>)
      | Inr shifted \<Rightarrow>
          (case effects_time_stretch lib shifted
                  (9 / 10 + (11 / 10 - 9 / 10) * unit_of (draws w (pos w + 1))) of
             Inl e \<Rightarrow> (Inl e, snd (alloc shifted (w\<lparr>pos := pos w + 2\<rparr>)))
           | Inr stretched \<Rightarrow>
               (Inr (Suc (next_ref w)),
                snd (alloc stretched (snd (alloc shifted (w\<lparr>pos := pos w + 2\<rparr>)))))))"
  by (simp add: transform_audio_def random_simps librosa_pitch_shift_def
      librosa_time_stretch_def alloc_def eval_nat_numeral split: sum.splits)

text \<open>
  The deterministic skeleton of the per-file transformation: the stretch of the shift,
  or the error of the first primitive that fails.
\<close>

lemma transform_audio_skeleton:
  fixes lib :: librosa and self :: AudioGenerator and y :: ref and w :: world
  defines "r \<equiv> transform_audio lib self y w"
  defines "pitch \<equiv> [- 2, - 1, 1, 2 :: int] ! index_of 4 (draws w (pos w))"
  defines "rate \<equiv> 9 / 10 + (11 / 10 - 9 / 10) * unit_of (draws w (pos w + 1))"
  shows "map_sum id (heap (snd r)) (fst r) =
           (case effects_pitch_shift lib (heap w y) (AudioGenerator.sr self) (of_int pitch) of
              Inl e \<Rightarrow> Inl e
            | Inr shifted \<Rightarrow> effects_time_stretch lib shifted rate)
       \<and> pitch \<in> {- 2, - 1, 1, 2}
       \<and> 9 / 10 \<le> rate \<and> rate \<le> 11 / 10
       \<and> pos (snd r) = pos w + 2"
proof -
  have "index_of 4 (draws w (pos w)) < 4" by (simp add: index_of_less)
  then have "index_of 4 (draws w (pos w)) \<in> {0, 1, 2, 3}" by auto
  then have p: "pitch \<in> {- 2, - 1, 1, 2}"
    unfolding pitch_def by auto
  have rt: "9 / 10 \<le> rate \<and> rate \<le> 11 / 10"
    unfolding rate_def using unit_of_bounds [of "draws w (pos w + 1)"] by simp
  have "map_sum id (heap (snd r)) (fst r) =
           (case effects_pitch_shift lib (heap w y) (AudioGenerator.sr self) (of_int pitch) of
              Inl e \<Rightarrow> Inl e
            | Inr shifted \<Rightarrow> effects_time_stretch lib shifted rate)
       \<and> pos (snd r) = pos w + 2"
    unfolding r_def transform_audio_eq pitch_def rate_def
    by (simp add: alloc_simps split: sum.splits)
  with p rt show ?thesis by simp
qed

lemma generate_loop_skip:
  "\<not> endswith (lower file) ''.wav'' \<Longrightarrow>
   generate_loop lib self (file # rest) w = generate_loop lib self rest w"
  by simp

lemma case_result:
  "fst p = Inr u \<Longrightarrow>
   (case p of (Inl e, w) \<Rightarrow> A e w | (Inr x, w) \<Rightarrow> B x w) = B u (snd p)"
  by (cases p) auto

lemma sf_write_ok:
  assumes "directories w d = Some ns"
  shows "fst (sf_write (d, n) y rate w) = Inr ()"
    "draws (snd (sf_write (d, n) y rate w)) = draws w"
    "pos (snd (sf_write (d, n) y rate w)) = pos w"
    "files (snd (sf_write (d, n) y rate w)) = (files w)((d, n) \<mapsto> (heap w y, rate))"
    "written (snd (sf_write (d, n) y rate w)) = written w @ [((d, n), (heap w y, rate))]"
    "directories (snd (sf_write (d, n) y rate w)) d \<noteq> None"
  using assms by (simp_all add: sf_write_def)

lemma generate_loop_step:
  assumes wav: "endswith (lower file) ''.wav''"
    and out: "directories w (output_dir self) \<noteq> None"
  shows "case batch_output lib self (files w) (draws w) (pos w) file of
           Inl e \<Rightarrow> fst (generate_loop lib self (file # rest) w) = Inl e
         | Inr v \<Rightarrow>
             (\<exists>w'. generate_loop lib self (file # rest) w = generate_loop lib self rest w'
                \<and> draws w' = draws w \<and> pos w' = pos w + 2
                \<and> files w' = (files w)((output_dir self, ''generated_'' @ file) \<mapsto>
                                (v, AudioGenerator.sr self))
                \<and> written w' = written w @ [output_entry self file v]
                \<and> directories w' (output_dir self) \<noteq> None)"
proof (cases "files w (input_dir self, file)")
  case None
  with wav show ?thesis
    by (simp add: batch_output_def librosa_load_def)
next
  case (Some f)
  show ?thesis
  proof (cases "load lib f (AudioGenerator.sr self)")
    case (Inl e)
    with wav Some show ?thesis
      by (simp add: batch_output_def librosa_load_def)
  next
    case (Inr loaded)
    let ?w1 = "snd (alloc loaded w)"
    have ld: "librosa_load lib (input_dir self, file) (AudioGenerator.sr self) w
                = (Inr (next_ref w), ?w1)"
      using Some Inr by (simp add: librosa_load_def alloc_def)
    have w1: "heap ?w1 (next_ref w) = loaded" "draws ?w1 = draws w" "pos ?w1 = pos w"
      "files ?w1 = files w" "written ?w1 = written w" "directories ?w1 = directories w"
      by (simp_all add: alloc_simps)
    have bo: "batch_output lib self (files w) (draws w) (pos w) file =
                batch_transform lib (AudioGenerator.sr self) (draws w) (pos w) loaded"
      using Some Inr by (simp add: batch_output_def)
    show ?thesis
    proof (cases "effects_pitch_shift lib loaded (AudioGenerator.sr self)
                    (of_int ([- 2, - 1, 1, 2] ! index_of 4 (draws w (pos w))))")
      case (Inl e)
      with wav show ?thesis
        unfolding bo by (simp add: ld transform_audio_eq w1 batch_transform_def)
    next
      case shifted: (Inr shifted)
      show ?thesis
      proof (cases "effects_time_stretch lib shifted
                      (9 / 10 + (11 / 10 - 9 / 10) * unit_of (draws w (pos w + 1)))")
        case (Inl e)
        with wav shifted show ?thesis
          unfolding bo by (simp add: ld transform_audio_eq w1 batch_transform_def)
      next
        case stretched: (Inr stretched)
        let ?w2 = "snd (alloc stretched (snd (alloc shifted (?w1\<lparr>pos := pos ?w1 + 2\<rparr>))))"
        have tr: "transform_audio lib self (next_ref w) ?w1 = (Inr (Suc (next_ref ?w1)), ?w2)"
          using shifted stretched by (simp add: transform_audio_eq w1)
        have w2: "heap ?w2 (Suc (next_ref ?w1)) = stretched" "draws ?w2 = draws w"
          "pos ?w2 = pos w + 2" "files ?w2 = files w" "written ?w2 = written w"
          "directories ?w2 = directories w"
          by (simp_all add: alloc_simps)
        from out obtain ns where ns: "directories w (output_dir self) = Some ns" by auto
        have d2: "directories ?w2 (output_dir self) = Some ns"
          by (simp only: w2(6) ns)
        let ?w3 = "snd (sf_write (output_dir self, ''generated_'' @ file) (Suc (next_ref ?w1))
                     (AudioGenerator.sr self) ?w2)"
        note ok = sf_write_ok [OF d2, of "''generated_'' @ file" "Suc (next_ref ?w1)"
            "AudioGenerator.sr self"]
        have wr: "fst (sf_write (output_dir self, ''generated_'' @ file) (Suc (next_ref ?w1))
                     (AudioGenerator.sr self) ?w2) = Inr ()"
          by (rule ok(1))
        have w3: "draws ?w3 = draws w" "pos ?w3 = pos w + 2"
          "files ?w3 = (files w)((output_dir self, ''generated_'' @ file) \<mapsto>
                                (stretched, AudioGenerator.sr self))"
          "written ?w3 = written w @ [output_entry self file stretched]"
          "directories ?w3 (output_dir self) \<noteq> None"
          using ok(2-6) by (simp_all only: w2 output_entry_def simp_thms)
        have "generate_loop lib self (file # rest) w = generate_loop lib self rest ?w3"
          using wav
          by (simp only: generate_loop.simps if_True ld tr prod.case sum.case case_result [OF wr])
        moreover have "batch_output lib self (files w) (draws w) (pos w) file = Inr stretched"
          unfolding bo using shifted stretched by (simp add: batch_transform_def)
        ultimately show ?thesis
          using w3 by (simp del: generate_loop.simps) blast
      qed
    qed
  qed
qed


lemma batch_outputs_cong:
  "(\<And>file. fs (input_dir self, file) = fs' (input_dir self, file)) \<Longrightarrow>
   batch_outputs lib self fs d p names = batch_outputs lib self fs' d p names"
  by (induction names arbitrary: p) (simp_all add: batch_output_def)

lemma generate_loop_spec:
  assumes ne: "input_dir self \<noteq> output_dir self"
    and out: "directories w (output_dir self) \<noteq> None"
  shows "case collect (batch_outputs lib self (files w) (draws w) (pos w) (wav_names names)) of
           Inl e \<Rightarrow> fst (generate_loop lib self names w) = Inl e
         | Inr vs \<Rightarrow>
             fst (generate_loop lib self names w) = Inr ()
           \<and> written (snd (generate_loop lib self names w))
               = written w @ map2 (output_entry self) (wav_names names) vs"
  using out
proof (induction names arbitrary: w)
  case Nil
  show ?case by (simp add: wav_names_def)
next
  case (Cons entry rest)
  show ?case
  proof (cases "endswith (lower entry) ''.wav''")
    case False
    then have "wav_names (entry # rest) = wav_names rest"
      by (simp add: wav_names_def)
    moreover from False have "generate_loop lib self (entry # rest) w = generate_loop lib self rest w"
      by (rule generate_loop_skip)
    ultimately show ?thesis
      using Cons.IH [OF Cons.prems] by (simp only:)
  next
    case True
    then have names: "wav_names (entry # rest) = entry # wav_names rest"
      by (simp add: wav_names_def)
    note step = generate_loop_step [OF True Cons.prems, of lib rest]
    show ?thesis
    proof (cases "batch_output lib self (files w) (draws w) (pos w) entry")
      case (Inl e)
      with step show ?thesis
        unfolding names by (simp del: generate_loop.simps)
    next
      case (Inr v)
      with step obtain w' where w': 
        "generate_loop lib self (entry # rest) w = generate_loop lib self rest w'"
        "draws w' = draws w" "pos w' = pos w + 2"
        "files w' = (files w)((output_dir self, ''generated_'' @ entry) \<mapsto>
                                (v, AudioGenerator.sr self))"
        "written w' = written w @ [output_entry self entry v]"
        "directories w' (output_dir self) \<noteq> None"
        by auto
      have "batch_outputs lib self (files w') (draws w) (pos w + 2) (wav_names rest)
              = batch_outputs lib self (files w) (draws w) (pos w + 2) (wav_names rest)"
        by (rule batch_outputs_cong) (simp add: w'(4) ne)
      with Cons.IH [OF w'(6)] have ih:
        "case collect (batch_outputs lib self (files w) (draws w) (pos w + 2) (wav_names rest)) of
           Inl e \<Rightarrow> fst (generate_loop lib self rest w') = Inl e
         | Inr vs \<Rightarrow>
             fst (generate_loop lib self rest w') = Inr ()
           \<and> written (snd (generate_loop lib self rest w'))
               = written w' @ map2 (output_entry self) (wav_names rest) vs"
        by (simp only: w'(2,3))
      show ?thesis
        using ih Inr
        unfolding names w'(1) w'(5)
        by (simp del: generate_loop.simps split: sum.splits)
    qed
  qed
qed

lemma generate_loop_outputs:
  assumes out: "directories w (output_dir self) \<noteq> None"
    and ok: "fst (generate_loop lib self names w) = Inr ()"
  shows "\<exists>vs. length vs = length (wav_names names)
           \<and> written (snd (generate_loop lib self names w))
               = written w @ map2 (output_entry self) (wav_names names) vs"
  using assms
proof (induction names arbitrary: w)
  case Nil
  show ?case by (simp add: wav_names_def)
next
  case (Cons entry rest)
  show ?case
  proof (cases "endswith (lower entry) ''.wav''")
    case False
    then have "wav_names (entry # rest) = wav_names rest"
      by (simp add: wav_names_def)
    moreover from False have "generate_loop lib self (entry # rest) w = generate_loop lib self rest w"
      by (rule generate_loop_skip)
    ultimately show ?thesis
      using Cons.IH [of w] Cons.prems by simp
  next
    case True
    then have names: "wav_names (entry # rest) = entry # wav_names rest"
      by (simp add: wav_names_def)
    note step = generate_loop_step [OF True Cons.prems(1), of lib rest]
    show ?thesis
    proof (cases "batch_output lib self (files w) (draws w) (pos w) entry")
      case (Inl e)
      with step Cons.prems(2) show ?thesis by simp
    next
      case (Inr v)
      with step obtain w' where w':
        "generate_loop lib self (entry # rest) w = generate_loop lib self rest w'"
        "written w' = written w @ [output_entry self entry v]"
        "directories w' (output_dir self) \<noteq> None"
        by auto
      from Cons.prems(2) have "fst (generate_loop lib self rest w') = Inr ()"
        by (simp only: w'(1))
      from Cons.IH [OF w'(3) this] obtain vs where vs:
        "length vs = length (wav_names rest)"
        "written (snd (generate_loop lib self rest w'))
           = written w' @ map2 (output_entry self) (wav_names rest) vs"
        by blast
      show ?thesis
        unfolding names w'(1) vs(2) w'(2)
        using vs(1) by (intro exI [of _ "v # vs"]) simp
    qed
  qed
qed

text \<open>
  Claim C6. When the input directory is listed and the output directory exists, a run
  of generate that succeeds has written exactly one output for each entry whose name
  ends in ".wav" (in any letter case), in listing order, under the name "generated_"
  followed by the entry's name. When the two directories differ, the run is determined:
  it fails with the first error of loading or transforming a WAV entry, and otherwise
  each output is the Batch Transformer's result on the whole decoded file, with no
  segmentation.
\<close>

theorem generate_one_output_per_wav:
  fixes lib :: librosa and self :: AudioGenerator and w :: world and names :: "string list"
  defines "r \<equiv> generate lib self w"
  defines "wavs \<equiv> wav_names names"
  assumes listing: "directories w (input_dir self) = Some names"
    and out: "directories w (output_dir self) \<noteq> None"
  shows "(fst r = Inr () \<longrightarrow>
            (\<exists>vs. length vs = length wavs
                \<and> written (snd r) = written w @ map2 (output_entry self) wavs vs))
       \<and> (input_dir self \<noteq> output_dir self \<longrightarrow>
            (case collect (batch_outputs lib self (files w) (draws w) (pos w) wavs) of
               Inl e \<Rightarrow> fst r = Inl e
             | Inr vs \<Rightarrow>
                 fst r = Inr ()
               \<and> length vs = length wavs
               \<and> written (snd r) = written w @ map2 (output_entry self) wavs vs))"
proof -
  have len: "length (batch_outputs lib self fs d p ns) = length ns" for fs d p ns
    by (induction ns arbitrary: p) simp_all
  have r: "r = generate_loop lib self names w"
    unfolding r_def by (simp add: generate_def os_listdir_def listing)
  have a: "fst r = Inr () \<longrightarrow>
            (\<exists>vs. length vs = length wavs
                \<and> written (snd r) = written w @ map2 (output_entry self) wavs vs)"
    unfolding r wavs_def using generate_loop_outputs [OF out, of lib names] by blast
  have b: "case collect (batch_outputs lib self (files w) (draws w) (pos w) wavs) of
               Inl e \<Rightarrow> fst r = Inl e
             | Inr vs \<Rightarrow>
                 fst r = Inr ()
               \<and> length vs = length wavs
               \<and> written (snd r) = written w @ map2 (output_entry self) wavs vs"
    if ne: "input_dir self \<noteq> output_dir self"
    using generate_loop_spec [OF ne out, of lib names]
    unfolding r wavs_def by (auto split: sum.splits dest: collect_length simp: len)
  from a b show ?thesis by blast
qed

lemma wav_names_sample:
  "wav_names [''a.wav'', ''notes.txt'', ''B.WAV''] = [''a.wav'', ''B.WAV'']"
  by (simp add: wav_names_def endswith_def lower_def lower_char_def char_of_eq_iff)

theorem generate_one_output_per_wav_witness:
  "directories batch_world (input_dir batch_generator) = Some [''a.wav'', ''notes.txt'', ''B.WAV''] \<and>
   directories batch_world (output_dir batch_generator) \<noteq> None \<and>
   input_dir batch_generator \<noteq> output_dir batch_generator \<and>
   fst (generate toy_librosa batch_generator batch_world) = Inr () \<and>
   written (snd (generate toy_librosa batch_generator batch_world)) =
     [((''generated_music'', ''generated_a.wav''), ([- 9 / 10, 0], 22050)),
      ((''generated_music'', ''generated_B.WAV''), ([9 / 10], 22050))]"
proof -
  have h: "directories batch_world (input_dir batch_generator) = Some [''a.wav'', ''notes.txt'', ''B.WAV'']"
    "directories batch_world (output_dir batch_generator) \<noteq> None"
    by (simp_all add: batch_world_def batch_generator_def empty_world_def)
  have ne: "input_dir batch_generator \<noteq> output_dir batch_generator"
    by (simp add: batch_generator_def)
  have w: "written batch_world = []" "pos batch_world = 0" "draws batch_world = (\<lambda>_. 0)"
    by (simp_all add: batch_world_def empty_world_def)
  have c: "collect (batch_outputs toy_librosa batch_generator (files batch_world) (\<lambda>_. 0) 0
             [''a.wav'', ''B.WAV'']) = Inr [[- 9 / 10, 0], [9 / 10]]"
    by (simp add: batch_output_def batch_transform_def batch_world_def batch_generator_def
        toy_librosa_def index_of_def unit_of_def)
  from generate_one_output_per_wav [OF h, of toy_librosa] h ne show ?thesis
    unfolding wav_names_sample w c by (simp add: output_entry_def batch_generator_def)
qed

end
